theory Spec2Isabelle
  imports Main
begin

section \<open>JavaScript values used by the page\<close>

text \<open>
  Strings are lists of code units; the model uses HOL characters, each standing for one
  code unit below 256.  \<open>String.prototype.trim\<close> removes white space and line terminators
  from both ends: TAB, LF, VT, FF, CR, SP and NBSP are the ones in that range.
\<close>

definition is_space :: "char \<Rightarrow> bool" where
  "is_space c \<longleftrightarrow>
     c \<in> set [CHR 0x09, CHR 0x0A, CHR 0x0B, CHR 0x0C, CHR 0x0D, CHR '' '', CHR 0xA0]"

definition trim :: "string \<Rightarrow> string" where
  "trim s = rev (dropWhile is_space (rev (dropWhile is_space s)))"

text \<open>
  A template literal renders a non-negative integer below \<open>10^21\<close> as its decimal digits.
\<close>

definition digit_char :: "nat \<Rightarrow> char" where
  "digit_char d = ''0123456789'' ! d"

function decimal :: "nat \<Rightarrow> string" where
  "decimal n =
     (if n < 10 then [digit_char n] else decimal (n div 10) @ [digit_char (n mod 10)])"
  by pat_completeness auto
termination
  by (relation "measure (\<lambda>n. n)") auto

declare decimal.simps [simp del]

definition dquote :: string where
  "dquote = [CHR 0x22]"

text \<open>
  The value returned by \<open>JSON.parse\<close>.  An object is the list of its own properties in
  the order \<open>Object.entries\<close> enumerates them; a number's value is never inspected.
\<close>

datatype json =
    JNull
  | JBool bool
  | JNumber int
  | JString string
  | JArray "json list"
  | JObject "(string \<times> json) list"

text \<open>
  \<open>isRecord\<close>: \<open>Boolean(value) && typeof value === "object" && !Array.isArray(value)\<close>.
  Of the values \<open>JSON.parse\<close> returns, \<open>null\<close> is falsy, booleans, numbers and strings have
  another \<open>typeof\<close>, and arrays are excluded by the last conjunct.
\<close>

fun isRecord :: "json \<Rightarrow> bool" where
  "isRecord (JObject entries) = True"
| "isRecord _ = False"

text \<open>
  \<open>typeof test.action === "string" ? test.action.trim() : ""\<close>, for \<open>test\<close> that passed
  \<open>isRecord\<close>.  A missing property reads as \<open>undefined\<close> (\<open>Object.prototype\<close> has no
  property of these names).
\<close>

fun string_field :: "string \<Rightarrow> json \<Rightarrow> string" where
  "string_field name (JObject entries) =
     (case map_of entries name of Some (JString text) \<Rightarrow> trim text | _ \<Rightarrow> [])"
| "string_field name _ = []"

text \<open>
  Errors are values: \<open>Error message\<close> is \<open>throw new Error(message)\<close>, \<open>TypeError\<close> is what
  the engine raises when a method is called on a value that does not have it.
\<close>

datatype js_error = Error string | TypeError

text \<open>
  Every object literal \<open>{}\<close> inherits from \<open>Object.prototype\<close>.  Reading a property that
  is not an own property finds the inherited one; these are the names \<open>Object.prototype\<close>
  defines (ECMAScript, with Annex B), all of them functions except \<open>__proto__\<close>, whose
  getter returns the prototype object.  All are truthy and none is a string.
\<close>

definition Object_prototype_keys :: "string list" where
  "Object_prototype_keys =
     [''constructor'', ''__defineGetter__'', ''__defineSetter__'', ''hasOwnProperty'',
      ''__lookupGetter__'', ''__lookupSetter__'', ''isPrototypeOf'',
      ''propertyIsEnumerable'', ''toString'', ''valueOf'', ''__proto__'',
      ''toLocaleString'']"

text \<open>
  An object used as a dictionary is the list of its own properties in creation order.
  \<open>obj[key] = value\<close> replaces the value of an own property where it stands and appends a
  new one otherwise.  (Enumeration, as by \<open>Object.entries\<close> or \<open>JSON.stringify\<close>, lists the
  names that are array indices first, in numeric order, and the other names in
  creation order; the properties below read such objects by name.)
\<close>

fun obj_put :: "(string \<times> 'v) list \<Rightarrow> string \<Rightarrow> 'v \<Rightarrow> (string \<times> 'v) list" where
  "obj_put [] key v = [(key, v)]"
| "obj_put ((k, w) # rest) key v =
     (if k = key then (k, v) # rest else (k, w) # obj_put rest key v)"

section \<open>Data model\<close>

datatype step = Start | Input | Run | Report

datatype verdict = Pass | Fail

record plan_group =
  g_action :: string
  g_result :: string

type_synonym plan_input = "(string \<times> plan_group list) list"

record flat_test =
  test_id :: string
  category :: string
  action :: string
  expected :: string
  sequence :: nat

record test_result = flat_test +
  verdict :: verdict
  comment :: string

record category_counts =
  passed :: nat
  failed :: nat
  total :: nat

type_synonym category_summary = "(string \<times> category_counts) list"

record saved_report =
  report_id :: string
  report_suiteName :: string
  createdAt :: string
  report_total :: nat
  report_passed :: nat
  report_failed :: nat
  byCategory :: category_summary
  report_results :: "test_result list"
  report_source :: plan_input

section \<open>Plan parser\<close>

text \<open>
  \<open>source[category] = []\<close>.  The name \<open>__proto__\<close> is the accessor inherited from
  \<open>Object.prototype\<close>: assigning an array to it replaces the prototype of \<open>source\<close> and
  creates no own property.  Any other name becomes (or stays) an own property.
\<close>

definition source_reset :: "plan_input \<Rightarrow> string \<Rightarrow> plan_input" where
  "source_reset source category' =
     (if category' = ''__proto__'' then source else obj_put source category' [])"

text \<open>
  \<open>source[category].push({ action, result })\<close>.  For \<open>__proto__\<close> the array read is the
  prototype installed by the assignment above, so the own properties stay as they are.
  Reading a name that is neither an own property nor inherited gives \<open>undefined\<close>, and
  calling \<open>push\<close> on it raises; an inherited function has no \<open>push\<close> either.
\<close>

definition source_push :: "plan_input \<Rightarrow> string \<Rightarrow> plan_group \<Rightarrow> js_error + plan_input" where
  "source_push source category' item =
     (if category' = ''__proto__'' then Inr source
      else case map_of source category' of
             None \<Rightarrow> Inl TypeError
           | Some items \<Rightarrow> Inr (obj_put source category' (items @ [item])))"

text \<open>
  The loop state of \<open>parsePlan\<close>: the three local variables \<open>source\<close>, \<open>flattened\<close> and
  \<open>sequence\<close>.
\<close>

record parse_state =
  p_source :: plan_input
  p_flattened :: "flat_test list"
  p_sequence :: nat

text \<open>
  The body of \<open>rawTests.forEach((test, index) => ...)\<close>, from \<open>index\<close> on.
\<close>

fun forEach_test :: "string \<Rightarrow> json list \<Rightarrow> nat \<Rightarrow> parse_state \<Rightarrow> js_error + parse_state" where
  "forEach_test category' [] index st = Inr st"
| "forEach_test category' (test # rest) index st =
     (if \<not> isRecord test then
        Inl (Error (dquote @ category' @ dquote @ '' test #'' @ decimal (index + 1)
                    @ '' must be an object.''))
      else
        let action' = string_field ''action'' test;
            result = string_field ''result'' test
        in if action' = [] \<or> result = [] then
             Inl (Error (dquote @ category' @ dquote @ '' test #'' @ decimal (index + 1)
                         @ '' needs non-empty action/result.''))
           else
             (case source_push (p_source st) category' \<lparr>g_action = action', g_result = result\<rparr> of
                Inl e \<Rightarrow> Inl e
              | Inr source' \<Rightarrow>
                  forEach_test category' rest (index + 1)
                    \<lparr>p_source = source',
                     p_flattened = p_flattened st @
                       [\<lparr>test_id = category' @ ''-'' @ decimal index @ ''-''
                                    @ decimal (p_sequence st),
                         category = category', action = action', expected = result,
                         sequence = p_sequence st\<rparr>],
                     p_sequence = p_sequence st + 1\<rparr>))"

text \<open>
  The loop \<open>for (const [rawCategory, rawTests] of Object.entries(parsed))\<close>.
\<close>

fun for_entries :: "(string \<times> json) list \<Rightarrow> parse_state \<Rightarrow> js_error + parse_state" where
  "for_entries [] st = Inr st"
| "for_entries ((rawCategory, rawTests) # rest) st =
     (let category' = trim rawCategory
      in if category' = [] then Inl (Error ''Category names cannot be empty.'')
         else case rawTests of
                JArray tests' \<Rightarrow>
                  (case forEach_test category' tests' 0
                          (st\<lparr>p_source := source_reset (p_source st) category'\<rparr>) of
                     Inl e \<Rightarrow> Inl e
                   | Inr st' \<Rightarrow> for_entries rest st')
              | _ \<Rightarrow>
                  Inl (Error (''Category '' @ dquote @ category' @ dquote
                              @ '' must contain an array.'')))"

text \<open>
  \<open>parsePlan\<close>.  \<open>JSON.parse\<close> is the platform's; it is a parameter, \<open>None\<close> standing for
  the exception that the \<open>catch\<close> turns into the first error.
\<close>

definition parsePlan ::
  "(string \<Rightarrow> json option) \<Rightarrow> string \<Rightarrow> js_error + (plan_input \<times> flat_test list)" where
  "parsePlan JSON_parse rawText =
     (case JSON_parse rawText of
        None \<Rightarrow> Inl (Error ''Invalid JSON. Check commas, quotes, and brackets.'')
      | Some parsed \<Rightarrow>
          (case parsed of
             JObject entries \<Rightarrow>
               (case for_entries entries \<lparr>p_source = [], p_flattened = [], p_sequence = 1\<rparr> of
                  Inl e \<Rightarrow> Inl e
                | Inr st \<Rightarrow>
                    if length (p_flattened st) = 0
                    then Inl (Error ''No tests were found in the plan.'')
                    else Inr (p_source st, p_flattened st))
           | _ \<Rightarrow> Inl (Error ''The root value must be an object of categories.'')))"

section \<open>Report builder\<close>

text \<open>
  \<open>getCategorySummary\<close>.  \<open>summary\<close> starts as \<open>{}\<close>.  The test \<open>!summary[result.category]\<close>
  reads the property through the prototype chain: it finds an own entry, or else what
  \<open>Object.prototype\<close> has under that name, and both are truthy.
\<close>

definition summary_has :: "category_summary \<Rightarrow> string \<Rightarrow> bool" where
  "summary_has summary key \<longleftrightarrow>
     map_of summary key \<noteq> None \<or> key \<in> set Object_prototype_keys"

text \<open>
  The body of \<open>results.forEach((result) => ...)\<close>.  When the name is inherited and not an
  own property, the three \<open>+=\<close> write on the inherited object (a built-in function or
  \<open>Object.prototype\<close> itself), and \<open>summary\<close> keeps its own properties as they are.
\<close>

definition count_result :: "category_summary \<Rightarrow> test_result \<Rightarrow> category_summary" where
  "count_result summary result =
     (let summary1 =
            (if \<not> summary_has summary (category result)
             then obj_put summary (category result) \<lparr>passed = 0, failed = 0, total = 0\<rparr>
             else summary)
      in case map_of summary1 (category result) of
           None \<Rightarrow> summary1
         | Some counts \<Rightarrow>
             obj_put summary1 (category result)
               (if verdict result = Pass
                then counts\<lparr>total := total counts + 1, passed := passed counts + 1\<rparr>
                else counts\<lparr>total := total counts + 1, failed := failed counts + 1\<rparr>))"

definition getCategorySummary :: "test_result list \<Rightarrow> category_summary" where
  "getCategorySummary results' = foldl count_result [] results'"

text \<open>
  \<open>buildReport\<close>.  \<open>toSafeId()\<close> and \<open>new Date().toISOString()\<close> are read from the
  environment: the caller passes the identifier and the time stamp they return.
\<close>

definition buildReport ::
  "string \<Rightarrow> string \<Rightarrow> string \<Rightarrow> plan_input \<Rightarrow> test_result list \<Rightarrow> saved_report" where
  "buildReport newId now suiteName' source results' =
     (let passed' = length (filter (\<lambda>result. verdict result = Pass) results');
          failed' = length results' - passed'
      in \<lparr>report_id = newId,
          report_suiteName = suiteName',
          createdAt = now,
          report_total = length results',
          report_passed = passed',
          report_failed = failed',
          byCategory = getCategorySummary results',
          report_results = results',
          report_source = source\<rparr>)"

section \<open>Run engine and history\<close>

definition MAX_HISTORY_ITEMS :: nat where
  "MAX_HISTORY_ITEMS = 50"

text \<open>
  What \<open>localStorage\<close> holds under \<open>HISTORY_STORAGE_KEY\<close>, as the load effect tells the
  cases apart: text that \<open>JSON.parse\<close> rejects, a value that is not an array, or an array.
\<close>

datatype stored_item = Unparseable | NotAnArray | StoredReports "saved_report list"

text \<open>
  The state of the \<open>Home\<close> component: its \<open>useState\<close> variables, the timer held in
  \<open>swipeTimeoutRef\<close> (the verdict its pending callback will commit), and the item in
  \<open>localStorage\<close>.  \<open>results\<close> has \<open>None\<close> for \<open>null\<close> and for a hole.  A handler is a
  function from the state in which it runs to the state after its updates; the values
  its closure holds are those of that state.
\<close>

record app_state =
  step :: step
  suiteName :: string
  jsonDraft :: string
  parseError :: "string option"
  sourcePlan :: "plan_input option"
  tests :: "flat_test list"
  cursor :: nat
  results :: "test_result option list"
  commentDrafts :: "(string \<times> string) list"
  dragOffset :: int
  isDragging :: bool
  exitVerdict :: "verdict option"
  swipeTimeoutRef :: "verdict option"
  history :: "saved_report list"
  activeReportId :: "string option"
  historyItem :: "stored_item option"

text \<open>
  \<open>array[index] = value\<close> on a copy of the array: JavaScript extends the array when the
  index is past its end, leaving holes in between.
\<close>

definition array_set :: "'a option list \<Rightarrow> nat \<Rightarrow> 'a option \<Rightarrow> 'a option list" where
  "array_set xs i v =
     (if i < length xs then xs[i := v] else xs @ replicate (i - length xs) None @ [v])"

text \<open>
  \<open>(commentDrafts[target.id] ?? "").trim()\<close>.  An own property is a string.  Otherwise
  the read falls through to \<open>Object.prototype\<close>: a name it defines yields a function or
  an object, which is not nullish and has no \<open>trim\<close>; any other name yields \<open>undefined\<close>.
\<close>

definition draft_comment :: "(string \<times> string) list \<Rightarrow> string \<Rightarrow> js_error + string" where
  "draft_comment drafts key =
     (case map_of drafts key of
        Some text \<Rightarrow> Inr (trim text)
      | None \<Rightarrow> if key \<in> set Object_prototype_keys then Inl TypeError else Inr (trim []))"

definition clearRunState :: "app_state \<Rightarrow> app_state" where
  "clearRunState s =
     s\<lparr>swipeTimeoutRef := None, sourcePlan := None, tests := [], cursor := 0, results := [],
       commentDrafts := [], dragOffset := 0, isDragging := False, exitVerdict := None\<rparr>"

definition openNewPlan :: "app_state \<Rightarrow> app_state" where
  "openNewPlan s = (clearRunState s)\<lparr>parseError := None, step := Input\<rparr>"

text \<open>
  \<open>finishRun\<close>.  The history update is the functional one,
  \<open>[report, ...previous].slice(0, MAX_HISTORY_ITEMS)\<close>.
\<close>

definition finishRun :: "string \<Rightarrow> string \<Rightarrow> test_result option list \<Rightarrow> app_state \<Rightarrow> app_state" where
  "finishRun newId now nextResults s =
     (case sourcePlan s of
        None \<Rightarrow> s
      | Some source \<Rightarrow>
          let finishedResults = List.map_filter (\<lambda>item. item) nextResults;
              report = buildReport newId now
                         (if trim (suiteName s) = [] then ''Untitled Plan''
                          else trim (suiteName s))
                         source finishedResults
          in s\<lparr>history := take MAX_HISTORY_ITEMS (report # history s),
               activeReportId := Some (report_id report),
               step := Report\<rparr>)"

definition commitVerdict :: "string \<Rightarrow> string \<Rightarrow> verdict \<Rightarrow> app_state \<Rightarrow> js_error + app_state" where
  "commitVerdict newId now verdict' s =
     (if step s \<noteq> Run then Inr s
      else if \<not> cursor s < length (tests s) then Inr s
      else
        let target = tests s ! cursor s
        in case draft_comment (commentDrafts s) (test_id target) of
             Inl e \<Rightarrow> Inl e
           | Inr comment' \<Rightarrow>
               let entry = \<lparr>test_id = test_id target, category = category target,
                             action = action target, expected = expected target,
                             sequence = sequence target,
                             verdict = verdict', comment = comment'\<rparr>;
                   nextResults = array_set (results s) (cursor s) (Some entry);
                   s1 = s\<lparr>results := nextResults, isDragging := False\<rparr>;
                   nextCursor = cursor s + 1
               in if nextCursor \<ge> length (tests s)
                  then Inr (finishRun newId now nextResults s1)
                  else Inr (s1\<lparr>cursor := nextCursor\<rparr>))"

text \<open>
  \<open>recordVerdict\<close>.  \<open>offscreenDistance\<close> is \<open>Math.round(screenWidth * 1.2)\<close>, computed
  from the window; it is a parameter.  A timer already pending is cleared and the new
  one takes its place.
\<close>

definition recordVerdict :: "int \<Rightarrow> verdict \<Rightarrow> app_state \<Rightarrow> app_state" where
  "recordVerdict offscreenDistance verdict' s =
     (if step s \<noteq> Run \<or> exitVerdict s \<noteq> None then s
      else if \<not> cursor s < length (tests s) then s
      else s\<lparr>isDragging := False,
             exitVerdict := Some verdict',
             dragOffset := (if verdict' = Pass then offscreenDistance else - offscreenDistance),
             swipeTimeoutRef := Some verdict'\<rparr>)"

text \<open>
  The callback given to \<open>window.setTimeout\<close>, run when the timer fires.  An exception
  raised by \<open>commitVerdict\<close> leaves the callback before its three last statements.
\<close>

definition swipeTimeout_callback :: "string \<Rightarrow> string \<Rightarrow> app_state \<Rightarrow> js_error + app_state" where
  "swipeTimeout_callback newId now s =
     (case swipeTimeoutRef s of
        None \<Rightarrow> Inr s
      | Some verdict' \<Rightarrow>
          (case commitVerdict newId now verdict' s of
             Inl e \<Rightarrow> Inl e
           | Inr s' \<Rightarrow> Inr (s'\<lparr>exitVerdict := None, dragOffset := 0, swipeTimeoutRef := None\<rparr>)))"

definition undoLast :: "app_state \<Rightarrow> app_state" where
  "undoLast s =
     (if step s \<noteq> Run \<or> cursor s = 0 \<or> exitVerdict s \<noteq> None then s
      else
        let previousIndex = cursor s - 1;
            nextResults = array_set (results s) previousIndex None
        in s\<lparr>results := nextResults, cursor := previousIndex, dragOffset := 0,
             isDragging := False\<rparr>)"

text \<open>
  \<open>submitPlan\<close>.  The \<open>catch\<close> stores the message of the error; the text of a
  \<open>TypeError\<close> is the engine's.
\<close>

definition submitPlan :: "(string \<Rightarrow> json option) \<Rightarrow> app_state \<Rightarrow> app_state" where
  "submitPlan JSON_parse s =
     (let s0 = s\<lparr>swipeTimeoutRef := None\<rparr>
      in case parsePlan JSON_parse (jsonDraft s) of
           Inr (source, flattened) \<Rightarrow>
             s0\<lparr>sourcePlan := Some source, tests := flattened,
                results := replicate (length flattened) None, cursor := 0,
                commentDrafts := [], parseError := None, dragOffset := 0,
                isDragging := False, exitVerdict := None, step := Run\<rparr>
         | Inl (Error message) \<Rightarrow> s0\<lparr>parseError := Some message\<rparr>
         | Inl TypeError \<Rightarrow> s0\<lparr>parseError := Some ''TypeError''\<rparr>)"

definition updateComment :: "string \<Rightarrow> string \<Rightarrow> app_state \<Rightarrow> app_state" where
  "updateComment testId value' s =
     s\<lparr>commentDrafts := obj_put (commentDrafts s) testId value'\<rparr>"

definition first_id :: "saved_report list \<Rightarrow> string option" where
  "first_id reports = (case reports of [] \<Rightarrow> None | item # rest \<Rightarrow> Some (report_id item))"

definition deleteReport :: "string \<Rightarrow> app_state \<Rightarrow> app_state" where
  "deleteReport reportId s =
     (let nextHistory = filter (\<lambda>item. report_id item \<noteq> reportId) (history s)
      in s\<lparr>history := nextHistory,
           activeReportId :=
             (if activeReportId s = Some reportId then first_id nextHistory
              else activeReportId s)\<rparr>)"

definition clearHistory :: "app_state \<Rightarrow> app_state" where
  "clearHistory s = s\<lparr>history := [], activeReportId := None\<rparr>"

text \<open>
  The effect that loads the history when the component mounts, and the effect that
  writes it back whenever \<open>history\<close> has changed.  \<open>JSON.stringify\<close> of an array of
  reports parses back to that array.
\<close>

definition load_history :: "app_state \<Rightarrow> app_state" where
  "load_history s =
     (case historyItem s of
        None \<Rightarrow> s
      | Some Unparseable \<Rightarrow> s\<lparr>historyItem := None\<rparr>
      | Some NotAnArray \<Rightarrow> s
      | Some (StoredReports parsed) \<Rightarrow>
          s\<lparr>history := parsed, activeReportId := first_id parsed\<rparr>)"

definition persist_history :: "app_state \<Rightarrow> app_state" where
  "persist_history s = s\<lparr>historyItem := Some (StoredReports (history s))\<rparr>"

section \<open>Notions used to state the properties\<close>

text \<open>
  What the loop body of \<open>parsePlan\<close> makes of one item: the test it accepts, the group it
  pushes to \<open>source\<close> and the entry it pushes to \<open>flattened\<close>.
\<close>

definition valid_test :: "json \<Rightarrow> bool" where
  "valid_test test \<longleftrightarrow>
     isRecord test \<and> string_field ''action'' test \<noteq> [] \<and> string_field ''result'' test \<noteq> []"

definition group_of :: "json \<Rightarrow> plan_group" where
  "group_of test =
     \<lparr>g_action = string_field ''action'' test, g_result = string_field ''result'' test\<rparr>"

definition flat_of :: "string \<Rightarrow> nat \<Rightarrow> nat \<Rightarrow> json \<Rightarrow> flat_test" where
  "flat_of category' index sequence' test =
     \<lparr>test_id = category' @ ''-'' @ decimal index @ ''-'' @ decimal sequence',
      category = category',
      action = string_field ''action'' test,
      expected = string_field ''result'' test,
      sequence = sequence'\<rparr>"

fun items_of :: "json \<Rightarrow> json list" where
  "items_of (JArray tests') = tests'"
| "items_of _ = []"

text \<open>
  Re-grouping, in the words of the specification: a flattened test without its \<open>id\<close> and
  \<open>sequence\<close> is a plan group under its category; a category is mapped to its groups in
  the order of the flattened list, and a category with no test is not a key.
\<close>

definition group_of_test :: "flat_test \<Rightarrow> plan_group" where
  "group_of_test t = \<lparr>g_action = action t, g_result = expected t\<rparr>"

definition regroupByCategory :: "flat_test list \<Rightarrow> string \<Rightarrow> plan_group list option" where
  "regroupByCategory flattened category' =
     (let members = filter (\<lambda>t. category t = category') flattened
      in if members = [] then None else Some (map group_of_test members))"

text \<open>
  The counts of the results of one category.
\<close>

definition counts_of :: "test_result list \<Rightarrow> string \<Rightarrow> category_counts" where
  "counts_of results' c =
     \<lparr>passed = length (filter (\<lambda>r. category r = c \<and> verdict r = Pass) results'),
      failed = length (filter (\<lambda>r. category r = c \<and> verdict r \<noteq> Pass) results'),
      total = length (filter (\<lambda>r. category r = c) results')\<rparr>"

text \<open>
  The run state of the specification: tests, cursor, results and comment drafts.
\<close>

definition run_state :: "app_state \<Rightarrow>
    flat_test list \<times> nat \<times> test_result option list \<times> (string \<times> string) list" where
  "run_state s = (tests s, cursor s, results s, commentDrafts s)"

section \<open>Requests and example states\<close>

text \<open>
  The two requests the keyboard, the buttons and a released drag can make while a run
  is shown.
\<close>

datatype request = RecordVerdict int verdict | UndoLast

fun handle_request :: "request \<Rightarrow> app_state \<Rightarrow> app_state" where
  "handle_request (RecordVerdict offscreenDistance verdict') s =
     recordVerdict offscreenDistance verdict' s"
| "handle_request UndoLast s = undoLast s"

text \<open>
  The initial values of the \<open>useState\<close> variables; the draft shown at first
  (\<open>SAMPLE_PLAN\<close>) and the stored item are parameters.
\<close>

definition initial_state :: "string \<Rightarrow> stored_item option \<Rightarrow> app_state" where
  "initial_state draft item =
     \<lparr>step = Start, suiteName = ''Regression Plan'', jsonDraft = draft, parseError = None,
      sourcePlan = None, tests = [], cursor = 0, results = [], commentDrafts = [],
      dragOffset = 0, isDragging = False, exitVerdict = None, swipeTimeoutRef = None,
      history = [], activeReportId = None, historyItem = item\<rparr>"

text \<open>
  Example plans, as text and as the value \<open>JSON.parse\<close> returns for it: one category with
  one test (the example of the specification); one category with two tests; a category
  with an empty array before one with a test; two category names that differ by a
  leading space; a category named like a property of \<open>Object.prototype\<close>; a category
  named \<open>__proto__\<close>; and the other examples of the specification: the empty object, a
  category that is not an array, two categories with one test each.
\<close>

definition text_one :: string where
  \<open>text_one = ''{"A":[{"action":"x","result":"y"}]}''\<close>

definition plan_one :: json where
  "plan_one =
     JObject [(''A'', JArray [JObject [(''action'', JString ''x''),
                                       (''result'', JString ''y'')]])]"

definition text_two :: string where
  \<open>text_two = ''{"A":[{"action":"x","result":"y"},{"action":"z","result":"w"}]}''\<close>

definition plan_two :: json where
  "plan_two =
     JObject [(''A'', JArray [JObject [(''action'', JString ''x''),
                                       (''result'', JString ''y'')],
                              JObject [(''action'', JString ''z''),
                                       (''result'', JString ''w'')]])]"

definition text_empty_category :: string where
  \<open>text_empty_category = ''{"E":[],"A":[{"action":"x","result":"y"}]}''\<close>

definition plan_empty_category :: json where
  "plan_empty_category =
     JObject [(''E'', JArray []),
              (''A'', JArray [JObject [(''action'', JString ''x''),
                                       (''result'', JString ''y'')]])]"

definition text_same_name :: string where
  \<open>text_same_name =
     ''{"A":[{"action":"x","result":"y"}]," A":[{"action":"z","result":"w"}]}''\<close>

definition plan_same_name :: json where
  "plan_same_name =
     JObject [(''A'', JArray [JObject [(''action'', JString ''x''),
                                       (''result'', JString ''y'')]]),
              ('' A'', JArray [JObject [(''action'', JString ''z''),
                                        (''result'', JString ''w'')]])]"

definition text_constructor :: string where
  \<open>text_constructor = ''{"constructor":[{"action":"x","result":"y"}]}''\<close>

definition plan_constructor :: json where
  "plan_constructor =
     JObject [(''constructor'', JArray [JObject [(''action'', JString ''x''),
                                                 (''result'', JString ''y'')]])]"

definition text_proto :: string where
  \<open>text_proto = ''{"__proto__":[{"action":"x","result":"y"}]}''\<close>

definition plan_proto :: json where
  "plan_proto =
     JObject [(''__proto__'', JArray [JObject [(''action'', JString ''x''),
                                               (''result'', JString ''y'')]])]"

definition text_empty_object :: string where
  \<open>text_empty_object = ''{}''\<close>

definition text_not_array :: string where
  \<open>text_not_array = ''{"A": {}}''\<close>

definition text_two_categories :: string where
  \<open>text_two_categories =
     ''{"A":[{"action":"x","result":"y"}],"B":[{"action":"z","result":"w"}]}''\<close>

definition plan_two_categories :: json where
  "plan_two_categories =
     JObject [(''A'', JArray [JObject [(''action'', JString ''x''),
                                       (''result'', JString ''y'')]]),
              (''B'', JArray [JObject [(''action'', JString ''z''),
                                       (''result'', JString ''w'')]])]"

definition results_constructor :: "test_result list" where
  "results_constructor =
     [\<lparr>test_id = ''constructor-0-1'', category = ''constructor'', action = ''x'',
       expected = ''y'', sequence = 1, verdict = Pass, comment = []\<rparr>]"

text \<open>
  \<open>JSON.parse\<close> on the example texts; any other text is taken to be rejected.
\<close>

definition JSON_parse_examples :: "string \<Rightarrow> json option" where
  "JSON_parse_examples =
     map_of [(text_one, plan_one), (text_two, plan_two),
             (text_empty_category, plan_empty_category),
             (text_same_name, plan_same_name),
             (text_constructor, plan_constructor),
             (text_proto, plan_proto),
             (text_empty_object, JObject []),
             (text_not_array, JObject [(''A'', JObject [])]),
             (text_two_categories, plan_two_categories)]"

text \<open>
  The state in which a run of an example plan starts: the page is opened, a new session
  is started, the text is entered and submitted.
\<close>

definition run_of :: "string \<Rightarrow> app_state" where
  "run_of rawText =
     submitPlan JSON_parse_examples
       ((openNewPlan (initial_state [] None))\<lparr>jsonDraft := rawText\<rparr>)"

section \<open>Events of a session\<close>

text \<open>
  The component mounts: the load effect reads the stored item, then the effect that
  persists \<open>history\<close> runs with the history of the first render, which is empty.
\<close>

definition mount :: "string \<Rightarrow> stored_item option \<Rightarrow> app_state" where
  "mount draft item =
     (load_history (initial_state draft item))\<lparr>historyItem := Some (StoredReports [])\<rparr>"

text \<open>
  What can happen to the page.  A handler is listed with the guard of the panel that
  shows its control: the suite name and the submit button belong to the input panel,
  \<open>Home\<close> is a button of the input and report panels, the history button of the start
  panel is disabled while the history is empty, the comment box belongs to the run
  panel, and a report is selected from the list of the history.  \<open>SetDrag\<close> stands for
  the pointer handlers, which only write \<open>dragOffset\<close> and \<open>isDragging\<close> unless they call
  \<open>recordVerdict\<close>.  \<open>Reload\<close> mounts the component again on what \<open>localStorage\<close> holds;
  unmounting clears the timer.

  The timer callback calls the \<open>commitVerdict\<close> that \<open>recordVerdict\<close> closed over, which
  reads the state of the render in which the verdict was requested.  Typing a comment
  during the 220 ms of a flight is the one event that would make that state differ
  from the current one; it is left out of the sessions modelled here, so that in them
  the callback reads the current state.
\<close>

datatype event =
    Reload string
  | SetJsonDraft string
  | ImportDraft string
  | SetSuiteName string
  | Home
  | OpenHistory
  | OpenNewPlan
  | SubmitPlan
  | UpdateComment string string
  | Request request
  | TimerFires string string
  | SetDrag int bool
  | SelectReport string
  | DeleteReport string
  | ClearHistory
  | PersistHistory

fun apply_event :: "(string \<Rightarrow> json option) \<Rightarrow> event \<Rightarrow> app_state \<Rightarrow> js_error + app_state" where
  "apply_event JSON_parse (Reload draft) s = Inr (mount draft (historyItem s))"
| "apply_event JSON_parse (SetJsonDraft text) s = Inr (s\<lparr>jsonDraft := text\<rparr>)"
| "apply_event JSON_parse (ImportDraft text) s =
     Inr (s\<lparr>jsonDraft := text, parseError := None\<rparr>)"
| "apply_event JSON_parse (SetSuiteName text) s =
     Inr (if step s = Input then s\<lparr>suiteName := text\<rparr> else s)"
| "apply_event JSON_parse Home s =
     Inr (if step s = Input \<or> step s = Report then s\<lparr>step := Start\<rparr> else s)"
| "apply_event JSON_parse OpenHistory s =
     Inr (if step s = Start \<and> history s \<noteq> [] then s\<lparr>step := Report\<rparr> else s)"
| "apply_event JSON_parse OpenNewPlan s = Inr (openNewPlan s)"
| "apply_event JSON_parse SubmitPlan s =
     Inr (if step s = Input then submitPlan JSON_parse s else s)"
| "apply_event JSON_parse (UpdateComment testId value') s =
     Inr (if step s = Run \<and> exitVerdict s = None then updateComment testId value' s else s)"
| "apply_event JSON_parse (Request r) s = Inr (handle_request r s)"
| "apply_event JSON_parse (TimerFires newId now) s = swipeTimeout_callback newId now s"
| "apply_event JSON_parse (SetDrag offset dragging) s =
     Inr (s\<lparr>dragOffset := offset, isDragging := dragging\<rparr>)"
| "apply_event JSON_parse (SelectReport reportId) s =
     Inr (if reportId \<in> set (map report_id (history s))
          then s\<lparr>activeReportId := Some reportId\<rparr> else s)"
| "apply_event JSON_parse (DeleteReport reportId) s = Inr (deleteReport reportId s)"
| "apply_event JSON_parse ClearHistory s = Inr (clearHistory s)"
| "apply_event JSON_parse PersistHistory s = Inr (persist_history s)"

text \<open>
  An exception leaves the handler that raised it and the page goes on; the only handler
  that can raise does so before its first state update.
\<close>

definition after_event :: "(string \<Rightarrow> json option) \<Rightarrow> app_state \<Rightarrow> event \<Rightarrow> app_state" where
  "after_event JSON_parse s e =
     (case apply_event JSON_parse e s of Inl err \<Rightarrow> s | Inr s' \<Rightarrow> s')"

text \<open>
  A session: the first visit, with nothing stored, and then any events.
\<close>

definition session :: "(string \<Rightarrow> json option) \<Rightarrow> string \<Rightarrow> event list \<Rightarrow> app_state" where
  "session JSON_parse draft events = foldl (after_event JSON_parse) (mount draft None) events"

text \<open>
  A visit that finds \<open>item\<close> under \<open>HISTORY_STORAGE_KEY\<close>, and then any events;
  \<open>stored_count\<close> is the number of reports the load effect installs from an item;
  \<open>history_within n\<close> says that neither the history nor the stored array is longer
  than \<open>n\<close>.
\<close>

definition session_from ::
  "(string \<Rightarrow> json option) \<Rightarrow> string \<Rightarrow> stored_item option \<Rightarrow> event list \<Rightarrow> app_state"
  where
  "session_from JSON_parse draft item events =
     foldl (after_event JSON_parse) (mount draft item) events"

definition stored_count :: "stored_item option \<Rightarrow> nat" where
  "stored_count item =
     (case item of Some (StoredReports reports) \<Rightarrow> length reports | _ \<Rightarrow> 0)"

definition history_within :: "nat \<Rightarrow> app_state \<Rightarrow> bool" where
  "history_within n s \<longleftrightarrow>
     length (history s) \<le> n \<and> stored_count (historyItem s) \<le> n"

text \<open>
  The shape of the states of a session.  The stored item holds at most the maximum
  number of reports; the timer is pending exactly while \<open>exitVerdict\<close> is set, and only
  in the run step; in the run step a plan is loaded, the cursor is at a test, there is
  one result slot per test, the slots before the cursor are filled and the others are
  empty, and no test identifier is a property name of \<open>Object.prototype\<close>.
\<close>

definition stored_ok :: "stored_item option \<Rightarrow> bool" where
  "stored_ok item =
     (case item of Some (StoredReports reports) \<Rightarrow> length reports \<le> MAX_HISTORY_ITEMS
      | _ \<Rightarrow> True)"

definition run_wf :: "app_state \<Rightarrow> bool" where
  "run_wf s \<longleftrightarrow>
     sourcePlan s \<noteq> None \<and> cursor s < length (tests s) \<and>
     length (results s) = length (tests s) \<and>
     list_all (\<lambda>item. item \<noteq> None) (take (cursor s) (results s)) \<and>
     drop (cursor s) (results s) = replicate (length (tests s) - cursor s) None \<and>
     list_all (\<lambda>t. test_id t \<notin> set Object_prototype_keys) (tests s)"

definition app_inv :: "app_state \<Rightarrow> bool" where
  "app_inv s \<longleftrightarrow>
     length (history s) \<le> MAX_HISTORY_ITEMS \<and> stored_ok (historyItem s) \<and>
     swipeTimeoutRef s = exitVerdict s \<and>
     (if step s = Run then run_wf s else exitVerdict s = None)"

text \<open>
  Building a result as \<open>commitVerdict\<close> does, \<open>{ ...target, verdict, comment }\<close>, and the draft
  text of the test at the cursor, \<open>commentDrafts[target.id] ?? ""\<close>.
\<close>

definition make_result :: "flat_test \<Rightarrow> verdict \<Rightarrow> string \<Rightarrow> test_result" where
  "make_result target verdict' comment' =
     \<lparr>test_id = test_id target, category = category target, action = action target,
      expected = expected target, sequence = sequence target,
      verdict = verdict', comment = comment'\<rparr>"

definition current_draft :: "app_state \<Rightarrow> string" where
  "current_draft s =
     (case map_of (commentDrafts s) (test_id (tests s ! cursor s)) of
        None \<Rightarrow> [] | Some text \<Rightarrow> text)"

text \<open>
  Committing a verdict and undoing it, once for each verdict of a list.
\<close>

fun commit_undo_rounds ::
  "string \<Rightarrow> string \<Rightarrow> verdict list \<Rightarrow> app_state \<Rightarrow> js_error + app_state" where
  "commit_undo_rounds newId now [] s = Inr s"
| "commit_undo_rounds newId now (v # vs) s =
     (case commitVerdict newId now v s of
        Inl e \<Rightarrow> Inl e
      | Inr s' \<Rightarrow> commit_undo_rounds newId now vs (undoLast s'))"

section \<open>Example sessions\<close>

text \<open>
  A run state whose history is full, and the events of first visits on which a plan is
  entered and submitted, and then its single test is passed, or its two tests are failed
  and passed, or a first verdict is requested and its commit is still in flight.
\<close>

definition old_report :: saved_report where
  "old_report = buildReport ''r0'' ''t0'' ''Earlier run'' [] []"

definition run_with_full_history :: app_state where
  "run_with_full_history = (run_of text_one)\<lparr>history := replicate 50 old_report\<rparr>"

text \<open>
  What \<open>localStorage\<close> holds after 50 runs, and an array of 51 reports.
\<close>

definition full_store :: "stored_item option" where
  "full_store = Some (StoredReports (replicate 50 old_report))"

definition overfull_store :: "stored_item option" where
  "overfull_store = Some (StoredReports (replicate 51 old_report))"

definition pass_single_test :: "string \<Rightarrow> event list" where
  "pass_single_test rawText =
     [OpenNewPlan, SetJsonDraft rawText, SubmitPlan, Request (RecordVerdict 576 Pass),
      TimerFires ''r1'' ''t1'']"

definition fail_then_pass :: "string \<Rightarrow> event list" where
  "fail_then_pass rawText =
     [OpenNewPlan, SetJsonDraft rawText, SubmitPlan,
      Request (RecordVerdict 576 Fail), TimerFires ''r1'' ''t1'',
      Request (RecordVerdict 576 Pass), TimerFires ''r2'' ''t2'']"

definition verdict_requested :: "string \<Rightarrow> event list" where
  "verdict_requested rawText =
     [OpenNewPlan, SetJsonDraft rawText, SubmitPlan, Request (RecordVerdict 576 Pass)]"

section \<open>Facts about the JavaScript primitives\<close>

text \<open>
  Assigning to a property of a dictionary object, and rendering a number: the decimal
  digits of a number contain no \<open>-\<close> and determine the number, so what follows the last
  \<open>-\<close> of a test identifier determines its sequence number.
\<close>

lemma map_of_obj_put: "map_of (obj_put ps k v) = (map_of ps)(k \<mapsto> v)"
  by (induction ps) auto

lemma keys_obj_put: "fst ` set (obj_put ps k v) = insert k (fst ` set ps)"
  by (simp add: dom_map_of_conv_image_fst [symmetric] map_of_obj_put)

lemma obj_put_fresh: "k \<notin> fst ` set ps \<Longrightarrow> obj_put ps k v = ps @ [(k, v)]"
  by (induction ps) auto

lemma obj_put_last: "k \<notin> fst ` set ps \<Longrightarrow> obj_put (ps @ [(k, w)]) k v = ps @ [(k, v)]"
  by (induction ps) auto

lemma digit_char_inj: "d < 10 \<Longrightarrow> e < 10 \<Longrightarrow> digit_char d = digit_char e \<Longrightarrow> d = e"
  unfolding digit_char_def
  by (subst (asm) nth_eq_iff_index_eq) simp_all

lemma digit_char_digit: "d < 10 \<Longrightarrow> digit_char d \<in> set ''0123456789''"
  unfolding digit_char_def by (rule nth_mem) simp

lemma decimal_nonempty: "decimal n \<noteq> []"
  by (subst decimal.simps) simp

lemma decimal_digits: "set (decimal n) \<subseteq> set ''0123456789''"
proof (induction n rule: decimal.induct)
  case (1 n)
  show ?case
  proof (cases "n < 10")
    case True
    then show ?thesis
      using digit_char_digit [of n] by (subst decimal.simps) simp
  next
    case False
    have "n mod 10 < 10" by simp
    with False "1.IH" digit_char_digit [of "n mod 10"] show ?thesis
      by (subst decimal.simps) simp
  qed
qed

lemma decimal_no_dash: "CHR ''-'' \<notin> set (decimal n)"
  using decimal_digits [of n] by auto

lemma decimal_inj: "decimal n = decimal m \<Longrightarrow> n = m"
proof (induction n arbitrary: m rule: decimal.induct)
  case (1 n)
  have mm: "m mod 10 < 10" and nm: "n mod 10 < 10" by simp_all
  show ?case
  proof (cases "n < 10")
    case n: True
    show ?thesis
    proof (cases "m < 10")
      case True
      with n "1.prems" show ?thesis
        by (simp add: decimal.simps [of n] decimal.simps [of m] digit_char_inj)
    next
      case False
      with n "1.prems" decimal_nonempty [of "m div 10"] show ?thesis
        by (simp add: decimal.simps [of n] decimal.simps [of m])
    qed
  next
    case n: False
    show ?thesis
    proof (cases "m < 10")
      case True
      with n "1.prems" decimal_nonempty [of "n div 10"] show ?thesis
        by (simp add: decimal.simps [of n] decimal.simps [of m])
    next
      case False
      with n "1.prems" have eq: "decimal (n div 10) = decimal (m div 10)"
        and last: "digit_char (n mod 10) = digit_char (m mod 10)"
        by (simp_all add: decimal.simps [of n] decimal.simps [of m])
      from "1.IH" [OF n eq] have "n div 10 = m div 10" .
      moreover from digit_char_inj [OF nm mm last] have "n mod 10 = m mod 10" .
      ultimately show ?thesis
        by (metis div_mult_mod_eq)
    qed
  qed
qed

lemma takeWhile_to_separator:
  assumes "sep \<notin> set ys"
  shows "takeWhile (\<lambda>c. c \<noteq> sep) (rev (xs @ sep # ys)) = rev ys"
proof -
  have "takeWhile (\<lambda>c. c \<noteq> sep) (rev ys @ sep # rev xs)
          = rev ys @ takeWhile (\<lambda>c. c \<noteq> sep) (sep # rev xs)"
    by (rule takeWhile_append2) (use assms in auto)
  then show ?thesis by simp
qed

lemma suffix_after_separator:
  assumes "xs @ sep # ys = xs' @ sep # ys'" and "sep \<notin> set ys" and "sep \<notin> set ys'"
  shows "ys = ys'"
proof -
  have "rev ys = takeWhile (\<lambda>c. c \<noteq> sep) (rev (xs @ sep # ys))"
    by (rule takeWhile_to_separator [OF assms(2), symmetric])
  also have "\<dots> = takeWhile (\<lambda>c. c \<noteq> sep) (rev (xs' @ sep # ys'))"
    by (simp only: assms(1))
  also have "\<dots> = rev ys'"
    by (rule takeWhile_to_separator [OF assms(3)])
  finally show ?thesis by simp
qed

lemma test_id_sequence:
  assumes "c @ ''-'' @ decimal i @ ''-'' @ decimal s = c' @ ''-'' @ decimal i' @ ''-'' @ decimal s'"
  shows "s = s'"
proof -
  from assms have "(c @ ''-'' @ decimal i) @ CHR ''-'' # decimal s
                 = (c' @ ''-'' @ decimal i') @ CHR ''-'' # decimal s'"
    by simp
  from suffix_after_separator [OF this decimal_no_dash decimal_no_dash]
  show ?thesis by (rule decimal_inj)
qed

section \<open>The loops of the plan parser\<close>

text \<open>
  What the inner loop adds to \<open>flattened\<close>, \<open>sequence\<close> and \<open>source\<close> when it completes, what
  the outer loop makes of that over all categories, and the errors with which either
  stops.
\<close>

lemma forEach_test_flattened:
  "forEach_test c ts i st = Inr st' \<Longrightarrow>
     p_flattened st' =
       p_flattened st @ map (\<lambda>j. flat_of c (i + j) (p_sequence st + j) (ts ! j)) [0..<length ts]
     \<and> p_sequence st' = p_sequence st + length ts \<and> list_all valid_test ts"
proof (induction ts arbitrary: i st)
  case Nil
  then show ?case by simp
next
  case (Cons t ts)
  from Cons.prems obtain src where
    ok: "valid_test t" and
    push: "source_push (p_source st) c (group_of t) = Inr src" and
    rest: "forEach_test c ts (i + 1)
             \<lparr>p_source = src, p_flattened = p_flattened st @ [flat_of c i (p_sequence st) t],
              p_sequence = p_sequence st + 1\<rparr> = Inr st'"
    by (auto simp: Let_def valid_test_def group_of_def flat_of_def split: if_splits sum.splits)
  from Cons.IH [OF rest] ok show ?case
    by (simp add: map_upt_Suc del: upt_Suc)
qed

lemma forEach_test_source:
  "forEach_test c ts i st = Inr st' \<Longrightarrow> p_source st = ps @ [(c, items)] \<Longrightarrow>
   c \<notin> fst ` set ps \<Longrightarrow> c \<noteq> ''__proto__'' \<Longrightarrow>
     p_source st' = ps @ [(c, items @ map group_of ts)]"
proof (induction ts arbitrary: i st items)
  case Nil
  then show ?case by simp
next
  case (Cons t ts)
  from Cons.prems(3) have "map_of ps c = None"
    by (simp add: map_of_eq_None_iff)
  with Cons.prems(2) have look: "map_of (p_source st) c = Some items"
    by (simp add: map_add_def)
  from Cons.prems(1) look Cons.prems(4) have
    rest: "forEach_test c ts (i + 1)
             \<lparr>p_source = obj_put (p_source st) c (items @ [group_of t]),
              p_flattened = p_flattened st @ [flat_of c i (p_sequence st) t],
              p_sequence = p_sequence st + 1\<rparr> = Inr st'"
    by (auto simp: Let_def source_push_def group_of_def flat_of_def split: if_splits sum.splits)
  from Cons.prems(2,3) have "obj_put (p_source st) c (items @ [group_of t]) = ps @ [(c, items @ [group_of t])]"
    by (simp add: obj_put_last)
  with Cons.IH [OF rest _ Cons.prems(3,4), of "items @ [group_of t]"] show ?case
    by simp
qed

lemma forEach_test_source_proto:
  "forEach_test c ts i st = Inr st' \<Longrightarrow> c = ''__proto__'' \<Longrightarrow> p_source st' = p_source st"
proof (induction ts arbitrary: i st)
  case Nil
  then show ?case by simp
next
  case (Cons t ts)
  from Cons.prems have
    rest: "forEach_test c ts (i + 1)
             \<lparr>p_source = p_source st,
              p_flattened = p_flattened st @ [flat_of c i (p_sequence st) t],
              p_sequence = p_sequence st + 1\<rparr> = Inr st'"
    by (auto simp: Let_def source_push_def group_of_def flat_of_def split: if_splits sum.splits)
  from Cons.IH [OF rest Cons.prems(2)] show ?case by simp
qed

lemma forEach_test_sequence:
  assumes "forEach_test c ts i st = Inr st'"
  shows "map sequence (p_flattened st')
           = map sequence (p_flattened st) @ [p_sequence st..<p_sequence st + length ts]"
proof -
  have "map sequence (map (\<lambda>j. flat_of c (i + j) (p_sequence st + j) (ts ! j)) [0..<length ts])
          = map (\<lambda>j. j + p_sequence st) [0..<length ts]"
    by (simp add: flat_of_def add.commute)
  also have "\<dots> = [p_sequence st..<p_sequence st + length ts]"
    by (simp add: map_add_upt add.commute)
  finally show ?thesis
    using forEach_test_flattened [OF assms] by simp
qed

lemma forEach_test_groups:
  assumes "forEach_test c ts i st = Inr st'"
  shows "map (\<lambda>t. (category t, group_of_test t)) (p_flattened st')
           = map (\<lambda>t. (category t, group_of_test t)) (p_flattened st)
             @ map (\<lambda>test. (c, group_of test)) ts"
proof -
  have "map (\<lambda>t. (category t, group_of_test t))
          (map (\<lambda>j. flat_of c (i + j) (p_sequence st + j) (ts ! j)) [0..<length ts])
          = map (\<lambda>test. (c, group_of test)) ts"
    by (rule nth_equalityI) (simp_all add: flat_of_def group_of_test_def group_of_def)
  then show ?thesis
    using forEach_test_flattened [OF assms] by simp
qed

lemma forEach_test_ids:
  assumes "forEach_test c ts i st = Inr st'" and "t \<in> set (p_flattened st')"
  shows "t \<in> set (p_flattened st) \<or>
         (\<exists>j<length ts. t = flat_of c (i + j) (sequence t) (ts ! j))"
proof -
  from forEach_test_flattened [OF assms(1)] assms(2)
  consider "t \<in> set (p_flattened st)"
    | j where "j < length ts" "t = flat_of c (i + j) (p_sequence st + j) (ts ! j)"
    by auto
  then show ?thesis
  proof cases
    case 1
    then show ?thesis by simp
  next
    case 2
    from 2(2) have "sequence t = p_sequence st + j" by (simp add: flat_of_def)
    with 2 show ?thesis by auto
  qed
qed

lemma for_entries_sequence:
  "for_entries es st = Inr st' \<Longrightarrow>
     p_sequence st \<le> p_sequence st' \<and>
     map sequence (p_flattened st')
       = map sequence (p_flattened st) @ [p_sequence st..<p_sequence st']"
proof (induction es arbitrary: st)
  case Nil
  then show ?case by simp
next
  case (Cons e es)
  obtain k v where e: "e = (k, v)" by (cases e)
  from Cons.prems e obtain ts st1 where
    one: "forEach_test (trim k) ts 0 (st\<lparr>p_source := source_reset (p_source st) (trim k)\<rparr>) = Inr st1"
    and rest: "for_entries es st1 = Inr st'"
    by (auto simp: Let_def split: if_splits json.splits sum.splits)
  from forEach_test_flattened [OF one] forEach_test_sequence [OF one]
  have s1: "p_sequence st1 = p_sequence st + length ts"
    and f1: "map sequence (p_flattened st1)
               = map sequence (p_flattened st) @ [p_sequence st..<p_sequence st + length ts]"
    by simp_all
  from Cons.IH [OF rest] obtain m where
    s2: "p_sequence st' = p_sequence st1 + m"
    and f2: "map sequence (p_flattened st')
               = map sequence (p_flattened st1) @ [p_sequence st1..<p_sequence st1 + m]"
    by (auto simp: le_iff_add)
  have "[p_sequence st..<p_sequence st + length ts + m]
          = [p_sequence st..<p_sequence st + length ts]
            @ [p_sequence st + length ts..<p_sequence st + length ts + m]"
    by (rule upt_add_eq_append) simp
  with s1 s2 f1 f2 show ?case by simp
qed


lemma for_entries_Cons:
  assumes "for_entries ((k, v) # es) st = Inr st'"
  obtains ts st1 where "v = JArray ts" and "trim k \<noteq> []"
    and "forEach_test (trim k) ts 0 (st\<lparr>p_source := source_reset (p_source st) (trim k)\<rparr>)
           = Inr st1"
    and "for_entries es st1 = Inr st'"
  using assms by (auto simp: Let_def split: if_splits json.splits sum.splits)

lemma for_entries_groups:
  "for_entries es st = Inr st' \<Longrightarrow>
     map (\<lambda>t. (category t, group_of_test t)) (p_flattened st')
       = map (\<lambda>t. (category t, group_of_test t)) (p_flattened st)
         @ concat (map (\<lambda>(k, v). map (\<lambda>test. (trim k, group_of test)) (items_of v)) es)"
proof (induction es arbitrary: st)
  case Nil
  then show ?case by simp
next
  case (Cons e es)
  obtain k v where e: "e = (k, v)" by (cases e)
  from Cons.prems [unfolded e] obtain ts st1 where
    v: "v = JArray ts"
    and one: "forEach_test (trim k) ts 0 (st\<lparr>p_source := source_reset (p_source st) (trim k)\<rparr>)
                = Inr st1"
    and rest: "for_entries es st1 = Inr st'"
    by (rule for_entries_Cons)
  from forEach_test_groups [OF one] Cons.IH [OF rest] e v show ?case
    by simp
qed

lemma for_entries_valid:
  "for_entries es st = Inr st' \<Longrightarrow> (k, v) \<in> set es \<Longrightarrow>
     trim k \<noteq> [] \<and> (\<exists>ts. v = JArray ts \<and> list_all valid_test ts)"
proof (induction es arbitrary: st)
  case Nil
  then show ?case by simp
next
  case (Cons e es)
  obtain k' v' where e: "e = (k', v')" by (cases e)
  from Cons.prems(1) [unfolded e] obtain ts st1 where
    v: "v' = JArray ts" and k: "trim k' \<noteq> []"
    and one: "forEach_test (trim k') ts 0 (st\<lparr>p_source := source_reset (p_source st) (trim k')\<rparr>)
                = Inr st1"
    and rest: "for_entries es st1 = Inr st'"
    by (rule for_entries_Cons)
  show ?case
  proof (cases "(k, v) = e")
    case True
    with e v k forEach_test_flattened [OF one] show ?thesis by simp
  next
    case False
    with Cons.prems(2) have "(k, v) \<in> set es" by simp
    from Cons.IH [OF rest this] show ?thesis .
  qed
qed

lemma for_entries_ids:
  "for_entries es st = Inr st' \<Longrightarrow> t \<in> set (p_flattened st') \<Longrightarrow>
     t \<in> set (p_flattened st) \<or>
     (\<exists>k ts j. (k, JArray ts) \<in> set es \<and> j < length ts \<and>
                t = flat_of (trim k) j (sequence t) (ts ! j))"
proof (induction es arbitrary: st)
  case Nil
  then show ?case by simp
next
  case (Cons e es)
  obtain k v where e: "e = (k, v)" by (cases e)
  from Cons.prems(1) [unfolded e] obtain ts st1 where
    v: "v = JArray ts"
    and one: "forEach_test (trim k) ts 0 (st\<lparr>p_source := source_reset (p_source st) (trim k)\<rparr>)
                = Inr st1"
    and rest: "for_entries es st1 = Inr st'"
    by (rule for_entries_Cons)
  from Cons.IH [OF rest Cons.prems(2)] show ?case
  proof
    assume "t \<in> set (p_flattened st1)"
    from forEach_test_ids [OF one this] show ?thesis
    proof
      assume "t \<in> set (p_flattened (st\<lparr>p_source := source_reset (p_source st) (trim k)\<rparr>))"
      then show ?thesis by simp
    next
      assume "\<exists>j<length ts. t = flat_of (trim k) (0 + j) (sequence t) (ts ! j)"
      then obtain j where "j < length ts" "t = flat_of (trim k) j (sequence t) (ts ! j)"
        by auto
      with e v show ?thesis by auto
    qed
  next
    assume "\<exists>k ts j. (k, JArray ts) \<in> set es \<and> j < length ts \<and>
                t = flat_of (trim k) j (sequence t) (ts ! j)"
    then show ?thesis by auto
  qed
qed

lemma source_reset_fresh:
  "c \<notin> fst ` set src \<Longrightarrow> c \<noteq> ''__proto__'' \<Longrightarrow> source_reset src c = src @ [(c, [])]"
  by (simp add: source_reset_def obj_put_fresh)

lemma for_entries_source:
  "for_entries es st = Inr st' \<Longrightarrow> distinct (map (\<lambda>e. trim (fst e)) es) \<Longrightarrow>
   (\<forall>e\<in>set es. trim (fst e) \<notin> fst ` set (p_source st) \<and> trim (fst e) \<noteq> ''__proto__'') \<Longrightarrow>
     p_source st' = p_source st @ map (\<lambda>(k, v). (trim k, map group_of (items_of v))) es"
proof (induction es arbitrary: st)
  case Nil
  then show ?case by simp
next
  case (Cons e es)
  obtain k v where e: "e = (k, v)" by (cases e)
  from Cons.prems(1) [unfolded e] obtain ts st1 where
    v: "v = JArray ts"
    and one: "forEach_test (trim k) ts 0 (st\<lparr>p_source := source_reset (p_source st) (trim k)\<rparr>)
                = Inr st1"
    and rest: "for_entries es st1 = Inr st'"
    by (rule for_entries_Cons)
  from Cons.prems(3) e have fresh: "trim k \<notin> fst ` set (p_source st)"
    and proto: "trim k \<noteq> ''__proto__''"
    by simp_all
  have "p_source (st\<lparr>p_source := source_reset (p_source st) (trim k)\<rparr>)
          = p_source st @ [(trim k, [])]"
    using fresh proto by (simp add: source_reset_fresh)
  from forEach_test_source [OF one this fresh proto]
  have s1: "p_source st1 = p_source st @ [(trim k, map group_of ts)]"
    by simp
  have "\<forall>e\<in>set es. trim (fst e) \<notin> fst ` set (p_source st1) \<and> trim (fst e) \<noteq> ''__proto__''"
    using Cons.prems(2,3) e s1 by (force simp: image_iff)
  moreover from Cons.prems(2) have "distinct (map (\<lambda>e. trim (fst e)) es)"
    by simp
  ultimately have "p_source st'
      = p_source st1 @ map (\<lambda>(k, v). (trim k, map group_of (items_of v))) es"
    using Cons.IH [OF rest] by blast
  with s1 e v show ?case by simp
qed

lemma source_push_keys:
  assumes "c = ''__proto__'' \<or> c \<in> fst ` set src"
  obtains src' where "source_push src c g = Inr src'" and "fst ` set src' = fst ` set src"
proof (cases "c = ''__proto__''")
  case True
  then show ?thesis using that by (simp add: source_push_def)
next
  case False
  with assms have own: "c \<in> fst ` set src" by simp
  then obtain items where "map_of src c = Some items"
    by (metis map_of_eq_None_iff not_Some_eq)
  with False own show ?thesis
    using that [of "obj_put src c (items @ [g])"]
    by (simp add: source_push_def keys_obj_put insert_absorb)
qed

lemma forEach_test_error:
  assumes "forEach_test c ts i st = Inl e"
    and "c = ''__proto__'' \<or> c \<in> fst ` set (p_source st)"
  shows "\<exists>j<length ts.
           (\<not> isRecord (ts ! j) \<and>
            e = Error (dquote @ c @ dquote @ '' test #'' @ decimal (i + j + 1)
                       @ '' must be an object.'')) \<or>
           (isRecord (ts ! j) \<and>
            (string_field ''action'' (ts ! j) = [] \<or> string_field ''result'' (ts ! j) = []) \<and>
            e = Error (dquote @ c @ dquote @ '' test #'' @ decimal (i + j + 1)
                       @ '' needs non-empty action/result.''))"
  using assms
proof (induction ts arbitrary: i st)
  case Nil
  then show ?case by simp
next
  case (Cons t ts)
  show ?case
  proof (cases "valid_test t")
    case False
    with Cons.prems(1) have
      "(\<not> isRecord t \<and>
        e = Error (dquote @ c @ dquote @ '' test #'' @ decimal (i + 1) @ '' must be an object.'')) \<or>
       (isRecord t \<and> (string_field ''action'' t = [] \<or> string_field ''result'' t = []) \<and>
        e = Error (dquote @ c @ dquote @ '' test #'' @ decimal (i + 1)
                   @ '' needs non-empty action/result.''))"
      by (auto simp: valid_test_def Let_def split: if_splits)
    then show ?thesis
      by (intro exI [of _ 0]) simp
  next
    case True
    from Cons.prems(2) obtain src' where
      push: "source_push (p_source st) c (group_of t) = Inr src'"
      and keys: "fst ` set src' = fst ` set (p_source st)"
      by (rule source_push_keys)
    from Cons.prems(1) True push have
      rest: "forEach_test c ts (i + 1)
               \<lparr>p_source = src', p_flattened = p_flattened st @ [flat_of c i (p_sequence st) t],
                p_sequence = p_sequence st + 1\<rparr> = Inl e"
      by (simp add: valid_test_def Let_def group_of_def flat_of_def)
    from Cons.prems(2) keys have
      "c = ''__proto__'' \<or> c \<in> fst ` set (p_source
          \<lparr>p_source = src', p_flattened = p_flattened st @ [flat_of c i (p_sequence st) t],
           p_sequence = p_sequence st + 1\<rparr>)"
      by simp
    from Cons.IH [OF rest this] obtain j where
      "j < length ts" and
      "(\<not> isRecord (ts ! j) \<and>
            e = Error (dquote @ c @ dquote @ '' test #'' @ decimal (i + 1 + j + 1)
                       @ '' must be an object.'')) \<or>
           (isRecord (ts ! j) \<and>
            (string_field ''action'' (ts ! j) = [] \<or> string_field ''result'' (ts ! j) = []) \<and>
            e = Error (dquote @ c @ dquote @ '' test #'' @ decimal (i + 1 + j + 1)
                       @ '' needs non-empty action/result.''))"
      by blast
    then show ?thesis
      by (intro exI [of _ "Suc j"]) simp
  qed
qed

lemma source_reset_keys: "c = ''__proto__'' \<or> c \<in> fst ` set (source_reset src c)"
  by (simp add: source_reset_def keys_obj_put)

lemma for_entries_error:
  assumes "for_entries es st = Inl e"
  shows "\<exists>k v. (k, v) \<in> set es \<and>
           ((trim k = [] \<and> e = Error ''Category names cannot be empty.'') \<or>
            (trim k \<noteq> [] \<and> (\<forall>ts. v \<noteq> JArray ts) \<and>
             e = Error (''Category '' @ dquote @ trim k @ dquote @ '' must contain an array.'')) \<or>
            (\<exists>ts j. v = JArray ts \<and> j < length ts \<and>
               ((\<not> isRecord (ts ! j) \<and>
                 e = Error (dquote @ trim k @ dquote @ '' test #'' @ decimal (j + 1)
                            @ '' must be an object.'')) \<or>
                (isRecord (ts ! j) \<and>
                 (string_field ''action'' (ts ! j) = [] \<or> string_field ''result'' (ts ! j) = []) \<and>
                 e = Error (dquote @ trim k @ dquote @ '' test #'' @ decimal (j + 1)
                            @ '' needs non-empty action/result.'')))))"
  using assms
proof (induction es arbitrary: st)
  case Nil
  then show ?case by simp
next
  case (Cons x es)
  obtain k v where x: "x = (k, v)" by (cases x)
  let ?bad = "\<lambda>k v.
           ((trim k = [] \<and> e = Error ''Category names cannot be empty.'') \<or>
            (trim k \<noteq> [] \<and> (\<forall>ts. v \<noteq> JArray ts) \<and>
             e = Error (''Category '' @ dquote @ trim k @ dquote @ '' must contain an array.'')) \<or>
            (\<exists>ts j. v = JArray ts \<and> j < length ts \<and>
               ((\<not> isRecord (ts ! j) \<and>
                 e = Error (dquote @ trim k @ dquote @ '' test #'' @ decimal (j + 1)
                            @ '' must be an object.'')) \<or>
                (isRecord (ts ! j) \<and>
                 (string_field ''action'' (ts ! j) = [] \<or> string_field ''result'' (ts ! j) = []) \<and>
                 e = Error (dquote @ trim k @ dquote @ '' test #'' @ decimal (j + 1)
                            @ '' needs non-empty action/result.'')))))"
  consider
      (empty) "trim k = []"
    | (other) "trim k \<noteq> []" "\<forall>ts. v \<noteq> JArray ts"
    | (here) ts where "trim k \<noteq> []" "v = JArray ts"
        "forEach_test (trim k) ts 0 (st\<lparr>p_source := source_reset (p_source st) (trim k)\<rparr>) = Inl e"
    | (later) ts st1 where "trim k \<noteq> []" "v = JArray ts"
        "forEach_test (trim k) ts 0 (st\<lparr>p_source := source_reset (p_source st) (trim k)\<rparr>) = Inr st1"
        "for_entries es st1 = Inl e"
    using Cons.prems x
    by (cases v; cases "forEach_test (trim k) (items_of v) 0 (st\<lparr>p_source := source_reset (p_source st) (trim k)\<rparr>)")
       (auto simp: Let_def split: if_splits)
  then show ?case
  proof cases
    case empty
    with Cons.prems x have "?bad k v" by (simp add: Let_def)
    with x show ?thesis by (intro exI [of _ k] exI [of _ v]) simp
  next
    case other
    with Cons.prems x have "?bad k v" by (cases v) (simp_all add: Let_def)
    with x show ?thesis by (intro exI [of _ k] exI [of _ v]) simp
  next
    case here
    have "trim k = ''__proto__'' \<or>
          trim k \<in> fst ` set (p_source (st\<lparr>p_source := source_reset (p_source st) (trim k)\<rparr>))"
      using source_reset_keys [of "trim k" "p_source st"] by simp
    from forEach_test_error [OF here(3) this] here(2) have "?bad k v"
      by auto
    with x show ?thesis by (intro exI [of _ k] exI [of _ v]) simp
  next
    case later
    from Cons.IH [OF later(4)] obtain k' v' where "(k', v') \<in> set es" "?bad k' v'"
      by blast
    then show ?thesis by (intro exI [of _ k'] exI [of _ v']) simp
  qed
qed

section \<open>What a successful parse returns\<close>

text \<open>
  The flattened list numbers the accepted items 1, 2, ... in the order of the categories
  and of the items within each; its tests carry the trimmed category, action and result.
  \<open>source\<close> holds the trimmed input, category by category, when no two category names
  agree after trimming.
\<close>

lemma parsePlan_success:
  assumes "parsePlan JSON_parse rawText = Inr (source, flattened)"
  obtains entries st where "JSON_parse rawText = Some (JObject entries)"
    and "for_entries entries \<lparr>p_source = [], p_flattened = [], p_sequence = 1\<rparr> = Inr st"
    and "source = p_source st" and "flattened = p_flattened st" and "flattened \<noteq> []"
  using assms
  by (auto simp: parsePlan_def split: option.splits json.splits sum.splits if_splits)

lemma parsePlan_sequence:
  assumes "parsePlan JSON_parse rawText = Inr (source, flattened)"
  shows "map sequence flattened = [1..<length flattened + 1]"
proof -
  from assms obtain entries st where
    run: "for_entries entries \<lparr>p_source = [], p_flattened = [], p_sequence = 1\<rparr> = Inr st"
    and fl: "flattened = p_flattened st"
    by (rule parsePlan_success)
  from for_entries_sequence [OF run] fl
  have le: "1 \<le> p_sequence st" and seq: "map sequence flattened = [1..<p_sequence st]"
    by simp_all
  from seq have "length flattened = p_sequence st - 1"
    by (metis length_map length_upt)
  with le seq show ?thesis by simp
qed

lemma parsePlan_groups:
  assumes "parsePlan JSON_parse rawText = Inr (source, flattened)"
    and "JSON_parse rawText = Some (JObject entries)"
  shows "map (\<lambda>t. (category t, group_of_test t)) flattened
           = concat (map (\<lambda>(k, v). map (\<lambda>test. (trim k, group_of test)) (items_of v)) entries)"
proof -
  from assms(1) obtain entries' st where
    "JSON_parse rawText = Some (JObject entries')"
    and run: "for_entries entries' \<lparr>p_source = [], p_flattened = [], p_sequence = 1\<rparr> = Inr st"
    and fl: "flattened = p_flattened st"
    by (rule parsePlan_success)
  with assms(2) have "entries' = entries" by simp
  with for_entries_groups [OF run] fl show ?thesis by simp
qed

lemma parsePlan_source:
  assumes "parsePlan JSON_parse rawText = Inr (source, flattened)"
    and "JSON_parse rawText = Some (JObject entries)"
    and "distinct (map (\<lambda>e. trim (fst e)) entries)"
    and "''__proto__'' \<notin> (\<lambda>e. trim (fst e)) ` set entries"
  shows "source = map (\<lambda>(k, v). (trim k, map group_of (items_of v))) entries"
proof -
  from assms(1) obtain entries' st where
    "JSON_parse rawText = Some (JObject entries')"
    and run: "for_entries entries' \<lparr>p_source = [], p_flattened = [], p_sequence = 1\<rparr> = Inr st"
    and src: "source = p_source st"
    by (rule parsePlan_success)
  with assms(2) have same: "entries' = entries" by simp
  have "\<forall>e\<in>set entries.
          trim (fst e) \<notin> fst ` set (p_source \<lparr>p_source = [], p_flattened = [], p_sequence = 1\<rparr>)
          \<and> trim (fst e) \<noteq> ''__proto__''"
    using assms(4) by (force simp: image_iff)
  from for_entries_source [OF run [unfolded same] assms(3) this] src show ?thesis
    by simp
qed

lemma parsePlan_ids:
  assumes "parsePlan JSON_parse rawText = Inr (source, flattened)"
    and "JSON_parse rawText = Some (JObject entries)"
    and "t \<in> set flattened"
  shows "\<exists>k ts j. (k, JArray ts) \<in> set entries \<and> j < length ts \<and>
                  t = flat_of (trim k) j (sequence t) (ts ! j)"
proof -
  from assms(1) obtain entries' st where
    "JSON_parse rawText = Some (JObject entries')"
    and run: "for_entries entries' \<lparr>p_source = [], p_flattened = [], p_sequence = 1\<rparr> = Inr st"
    and fl: "flattened = p_flattened st"
    by (rule parsePlan_success)
  with assms(2) have same: "entries' = entries" by simp
  from for_entries_ids [OF run [unfolded same], of t] assms(3) fl show ?thesis
    by simp
qed

lemma distinct_map_via:
  assumes "distinct (map g xs)"
    and "\<And>x y. x \<in> set xs \<Longrightarrow> y \<in> set xs \<Longrightarrow> f x = f y \<Longrightarrow> g x = g y"
  shows "distinct (map f xs)"
proof -
  from assms(1) have d: "distinct xs" and inj: "inj_on g (set xs)"
    by (simp_all add: distinct_map)
  have "inj_on f (set xs)"
  proof (rule inj_onI)
    fix x y assume "x \<in> set xs" "y \<in> set xs" "f x = f y"
    with assms(2) inj show "x = y" by (auto dest: inj_onD)
  qed
  with d show ?thesis by (simp add: distinct_map)
qed

lemma parsePlan_never_TypeError: "parsePlan JSON_parse rawText \<noteq> Inl TypeError"
proof
  assume bad: "parsePlan JSON_parse rawText = Inl TypeError"
  then obtain entries where
    "for_entries entries \<lparr>p_source = [], p_flattened = [], p_sequence = 1\<rparr> = Inl TypeError"
    by (auto simp: parsePlan_def split: option.splits json.splits sum.splits if_splits)
  from for_entries_error [OF this] show False by auto
qed

lemma submitPlan_failure:
  assumes "parsePlan JSON_parse (jsonDraft s) = Inl e"
  shows "run_state (submitPlan JSON_parse s) = run_state s \<and>
         sourcePlan (submitPlan JSON_parse s) = sourcePlan s \<and>
         step (submitPlan JSON_parse s) = step s \<and>
         (\<exists>message. parseError (submitPlan JSON_parse s) = Some message)"
  using assms by (cases e) (simp_all add: submitPlan_def run_state_def)

section \<open>Claims about the plan parser\<close>

text \<open>
  Claim C3.  For every input text, \<open>parsePlan\<close> either returns a source and a flattened
  list with at least one test, or fails with exactly one of the messages of the parser:
  invalid JSON (when \<open>JSON.parse\<close> raises); the root is not an object; a category name is
  empty after trimming; a category value is not an array (the message names the trimmed
  category); an item is not an object, or its trimmed \<open>action\<close> or \<open>result\<close> is empty or
  not a string (the message names the trimmed category and the item's index plus one);
  no test in the whole plan.  No other error is possible, in particular no
  \<open>TypeError\<close>, and a failure carries no source and no flattened list.
\<close>

theorem parsePlan_total:
  "(\<exists>source flattened.
      parsePlan JSON_parse rawText = Inr (source, flattened) \<and> 1 \<le> length flattened) \<or>
   (JSON_parse rawText = None \<and>
    parsePlan JSON_parse rawText
      = Inl (Error ''Invalid JSON. Check commas, quotes, and brackets.'')) \<or>
   (\<exists>parsed. JSON_parse rawText = Some parsed \<and> isRecord parsed = False \<and>
      parsePlan JSON_parse rawText
        = Inl (Error ''The root value must be an object of categories.'')) \<or>
   (\<exists>entries k v. JSON_parse rawText = Some (JObject entries) \<and> (k, v) \<in> set entries \<and>
      trim k = [] \<and>
      parsePlan JSON_parse rawText = Inl (Error ''Category names cannot be empty.'')) \<or>
   (\<exists>entries k v. JSON_parse rawText = Some (JObject entries) \<and> (k, v) \<in> set entries \<and>
      (\<forall>ts. v \<noteq> JArray ts) \<and>
      parsePlan JSON_parse rawText
        = Inl (Error (''Category '' @ dquote @ trim k @ dquote @ '' must contain an array.''))) \<or>
   (\<exists>entries k ts index. JSON_parse rawText = Some (JObject entries) \<and>
      (k, JArray ts) \<in> set entries \<and> index < length ts \<and> isRecord (ts ! index) = False \<and>
      parsePlan JSON_parse rawText
        = Inl (Error (dquote @ trim k @ dquote @ '' test #'' @ decimal (index + 1)
                      @ '' must be an object.''))) \<or>
   (\<exists>entries k ts index. JSON_parse rawText = Some (JObject entries) \<and>
      (k, JArray ts) \<in> set entries \<and> index < length ts \<and>
      (string_field ''action'' (ts ! index) = [] \<or> string_field ''result'' (ts ! index) = []) \<and>
      parsePlan JSON_parse rawText
        = Inl (Error (dquote @ trim k @ dquote @ '' test #'' @ decimal (index + 1)
                      @ '' needs non-empty action/result.''))) \<or>
   (\<exists>entries. JSON_parse rawText = Some (JObject entries) \<and>
      parsePlan JSON_parse rawText = Inl (Error ''No tests were found in the plan.''))"
proof (cases "JSON_parse rawText")
  case None
  then show ?thesis by (simp add: parsePlan_def)
next
  case (Some parsed)
  show ?thesis
  proof (cases "isRecord parsed")
    case False
    with Some have "parsePlan JSON_parse rawText
        = Inl (Error ''The root value must be an object of categories.'')"
      by (cases parsed) (simp_all add: parsePlan_def)
    with Some False show ?thesis by simp
  next
    case True
    then obtain entries where parsed: "parsed = JObject entries"
      by (cases parsed) simp_all
    show ?thesis
    proof (cases "for_entries entries \<lparr>p_source = [], p_flattened = [], p_sequence = 1\<rparr>")
      case (Inr st)
      show ?thesis
      proof (cases "p_flattened st = []")
        case True
        with Some parsed Inr have
          "parsePlan JSON_parse rawText = Inl (Error ''No tests were found in the plan.'')"
          by (simp add: parsePlan_def)
        with Some parsed show ?thesis by simp
      next
        case False
        with Some parsed Inr have
          "parsePlan JSON_parse rawText = Inr (p_source st, p_flattened st)"
          by (simp add: parsePlan_def)
        moreover from False have "1 \<le> length (p_flattened st)"
          by (cases "p_flattened st") simp_all
        ultimately show ?thesis by blast
      qed
    next
      case (Inl e)
      with Some parsed have res: "parsePlan JSON_parse rawText = Inl e"
        by (simp add: parsePlan_def)
      from for_entries_error [OF Inl] obtain k v where
        mem: "(k, v) \<in> set entries" and
        bad: "(trim k = [] \<and> e = Error ''Category names cannot be empty.'') \<or>
            (trim k \<noteq> [] \<and> (\<forall>ts. v \<noteq> JArray ts) \<and>
             e = Error (''Category '' @ dquote @ trim k @ dquote @ '' must contain an array.'')) \<or>
            (\<exists>ts j. v = JArray ts \<and> j < length ts \<and>
               ((\<not> isRecord (ts ! j) \<and>
                 e = Error (dquote @ trim k @ dquote @ '' test #'' @ decimal (j + 1)
                            @ '' must be an object.'')) \<or>
                (isRecord (ts ! j) \<and>
                 (string_field ''action'' (ts ! j) = [] \<or> string_field ''result'' (ts ! j) = []) \<and>
                 e = Error (dquote @ trim k @ dquote @ '' test #'' @ decimal (j + 1)
                            @ '' needs non-empty action/result.''))))"
        by blast
      from bad consider
          (empty) "trim k = []" "e = Error ''Category names cannot be empty.''"
        | (other) "\<forall>ts. v \<noteq> JArray ts"
            "e = Error (''Category '' @ dquote @ trim k @ dquote @ '' must contain an array.'')"
        | (item) ts j where "v = JArray ts" "j < length ts" "isRecord (ts ! j) = False"
            "e = Error (dquote @ trim k @ dquote @ '' test #'' @ decimal (j + 1)
                        @ '' must be an object.'')"
        | (field) ts j where "v = JArray ts" "j < length ts"
            "string_field ''action'' (ts ! j) = [] \<or> string_field ''result'' (ts ! j) = []"
            "e = Error (dquote @ trim k @ dquote @ '' test #'' @ decimal (j + 1)
                        @ '' needs non-empty action/result.'')"
        by blast
      then show ?thesis
      proof cases
        case empty
        with Some parsed mem res show ?thesis by blast
      next
        case other
        with Some parsed mem res show ?thesis by blast
      next
        case item
        with Some parsed mem res show ?thesis by blast
      next
        case field
        with Some parsed mem res show ?thesis by blast
      qed
    qed
  qed
qed

theorem parsePlan_total_witness:
  "(\<exists>source flattened.
      parsePlan JSON_parse_examples text_two = Inr (source, flattened) \<and> 1 \<le> length flattened)"
proof -
  have "\<not> isl (parsePlan JSON_parse_examples text_two)"
    by code_simp
  with parsePlan_total [of JSON_parse_examples text_two] show ?thesis
    by auto
qed

text \<open>
  Claim C8.  After a successful parse the identifiers of the flattened tests are
  pairwise distinct, whatever the category names are.  Each identifier is the trimmed
  category name, the index of the item in the array of its category and the global
  sequence number, joined by \<open>-\<close>; the digits after the last \<open>-\<close> determine the sequence
  number, which no two tests share.
\<close>

theorem flat_test_ids_distinct:
  assumes "parsePlan JSON_parse rawText = Inr (source, flattened)"
    and "JSON_parse rawText = Some (JObject entries)"
  shows "distinct (map test_id flattened) \<and>
         list_all (\<lambda>t. \<exists>k ts index. (k, JArray ts) \<in> set entries \<and> index < length ts \<and>
                    category t = trim k \<and>
                    test_id t = category t @ ''-'' @ decimal index @ ''-'' @ decimal (sequence t))
           flattened"
proof
  have ids: "\<exists>k ts j. (k, JArray ts) \<in> set entries \<and> j < length ts \<and>
                category t = trim k \<and>
                test_id t = category t @ ''-'' @ decimal j @ ''-'' @ decimal (sequence t)"
    if "t \<in> set flattened" for t
  proof -
    from parsePlan_ids [OF assms that] obtain k ts j where
      "(k, JArray ts) \<in> set entries" "j < length ts"
      "t = flat_of (trim k) j (sequence t) (ts ! j)"
      by blast
    moreover from this(3) have "category t = trim k"
      and "test_id t = trim k @ ''-'' @ decimal j @ ''-'' @ decimal (sequence t)"
      by (metis flat_of_def flat_test.select_convs(2), metis flat_of_def flat_test.select_convs(1))
    ultimately show ?thesis by auto
  qed
  have "distinct (map sequence flattened)"
    by (simp add: parsePlan_sequence [OF assms(1)])
  then show "distinct (map test_id flattened)"
  proof (rule distinct_map_via)
    fix x y assume "x \<in> set flattened" "y \<in> set flattened" "test_id x = test_id y"
    with ids [of x] ids [of y] show "sequence x = sequence y"
      by (metis test_id_sequence)
  qed
  from ids show "list_all (\<lambda>t. \<exists>k ts index. (k, JArray ts) \<in> set entries \<and> index < length ts \<and>
                    category t = trim k \<and>
                    test_id t = category t @ ''-'' @ decimal index @ ''-'' @ decimal (sequence t))
           flattened"
    by (simp add: list_all_iff)
qed

theorem flat_test_ids_distinct_witness:
  "parsePlan JSON_parse_examples text_two
     = Inr ([(''A'', [\<lparr>g_action = ''x'', g_result = ''y''\<rparr>,
                      \<lparr>g_action = ''z'', g_result = ''w''\<rparr>])],
            [\<lparr>test_id = ''A-0-1'', category = ''A'', action = ''x'', expected = ''y'',
               sequence = 1\<rparr>,
             \<lparr>test_id = ''A-1-2'', category = ''A'', action = ''z'', expected = ''w'',
               sequence = 2\<rparr>]) \<and>
   distinct (map test_id
     [\<lparr>test_id = ''A-0-1'', category = ''A'', action = ''x'', expected = ''y'',
        sequence = 1\<rparr>,
      \<lparr>test_id = ''A-1-2'', category = ''A'', action = ''z'', expected = ''w'',
        sequence = 2\<rparr>])"
proof -
  have parsed: "JSON_parse_examples text_two
      = Some (JObject [(''A'', JArray [JObject [(''action'', JString ''x''),
                                                (''result'', JString ''y'')],
                                       JObject [(''action'', JString ''z''),
                                                (''result'', JString ''w'')]])])"
    by code_simp
  have run: "parsePlan JSON_parse_examples text_two
     = Inr ([(''A'', [\<lparr>g_action = ''x'', g_result = ''y''\<rparr>,
                      \<lparr>g_action = ''z'', g_result = ''w''\<rparr>])],
            [\<lparr>test_id = ''A-0-1'', category = ''A'', action = ''x'', expected = ''y'',
               sequence = 1\<rparr>,
             \<lparr>test_id = ''A-1-2'', category = ''A'', action = ''z'', expected = ''w'',
               sequence = 2\<rparr>])"
    by code_simp
  from flat_test_ids_distinct [OF run parsed] run show ?thesis
    by blast
qed

lemma regroup_pairs:
  "regroupByCategory flattened c =
     (let members = filter (\<lambda>p. fst p = c) (map (\<lambda>t. (category t, group_of_test t)) flattened)
      in if members = [] then None else Some (map snd members))"
  by (simp add: regroupByCategory_def Let_def filter_map comp_def)

lemma filter_groups_of_source:
  "distinct (map fst source) \<Longrightarrow>
     filter (\<lambda>p. fst p = c) (concat (map (\<lambda>(k, gs). map (Pair k) gs) source))
       = (case map_of source c of None \<Rightarrow> [] | Some gs \<Rightarrow> map (Pair c) gs)"
proof (induction source)
  case Nil
  then show ?case by simp
next
  case (Cons e source)
  obtain k gs where e: "e = (k, gs)" by (cases e)
  show ?case
  proof (cases "k = c")
    case True
    with Cons.prems e have "map_of source c = None"
      by (simp add: map_of_eq_None_iff)
    with Cons e True show ?thesis
      by (simp add: filter_id_conv)
  next
    case False
    with Cons e show ?thesis
      by (simp add: filter_empty_conv)
  qed
qed

lemma regroup_of_source:
  assumes "distinct (map fst source)"
    and "map (\<lambda>t. (category t, group_of_test t)) flattened
           = concat (map (\<lambda>(k, gs). map (Pair k) gs) source)"
  shows "regroupByCategory flattened c =
           (case map_of source c of
              None \<Rightarrow> None
            | Some gs \<Rightarrow> if gs = [] then None else Some gs)"
  by (simp add: regroup_pairs assms(2) filter_groups_of_source [OF assms(1)] comp_def
           split: option.splits)

text \<open>
  Claim C4 as stated fails.  A category whose array is empty is accepted when another
  category has a test: it is a key of \<open>source\<close> with no items, and no flattened test has
  its name, so re-grouping the flattened list does not produce the key.
\<close>

theorem regroup_misses_empty_category:
  "parsePlan JSON_parse_examples text_empty_category
     = Inr ([(''E'', []), (''A'', [\<lparr>g_action = ''x'', g_result = ''y''\<rparr>])],
            [\<lparr>test_id = ''A-0-1'', category = ''A'', action = ''x'', expected = ''y'',
               sequence = 1\<rparr>]) \<and>
   map_of [(''E'', []), (''A'', [\<lparr>g_action = ''x'', g_result = ''y''\<rparr>])] ''E'' = Some [] \<and>
   regroupByCategory
     [\<lparr>test_id = ''A-0-1'', category = ''A'', action = ''x'', expected = ''y'',
        sequence = 1\<rparr>] ''E'' = None"
  by code_simp

text \<open>
  Claim C4, amended.  For every input on which the parse succeeds and whose trimmed
  category names are pairwise distinct and not \<open>__proto__\<close>, re-grouping the flattened
  list by category reproduces the categories of \<open>source\<close> that have at least one item,
  each with the same items in the same order; a category of \<open>source\<close> with no item, and
  a name that is not a key of \<open>source\<close>, has no group.
\<close>

theorem regroup_reproduces_source:
  assumes "parsePlan JSON_parse rawText = Inr (source, flattened)"
    and "JSON_parse rawText = Some (JObject entries)"
    and "distinct (map (\<lambda>e. trim (fst e)) entries)"
    and "''__proto__'' \<notin> (\<lambda>e. trim (fst e)) ` set entries"
  shows "regroupByCategory flattened c =
           (case map_of source c of
              None \<Rightarrow> None
            | Some gs \<Rightarrow> if gs = [] then None else Some gs)"
proof -
  note src = parsePlan_source [OF assms]
  have keys: "map fst source = map (\<lambda>e. trim (fst e)) entries"
    by (simp add: src comp_def case_prod_unfold)
  have "map (\<lambda>t. (category t, group_of_test t)) flattened
          = concat (map (\<lambda>(k, gs). map (Pair k) gs) source)"
    by (simp add: parsePlan_groups [OF assms(1,2)] src comp_def case_prod_unfold)
  with keys assms(3) show ?thesis
    by (intro regroup_of_source) simp_all
qed

theorem regroup_reproduces_source_witness:
  "parsePlan JSON_parse_examples text_empty_category
     = Inr ([(''E'', []), (''A'', [\<lparr>g_action = ''x'', g_result = ''y''\<rparr>])],
            [\<lparr>test_id = ''A-0-1'', category = ''A'', action = ''x'', expected = ''y'',
               sequence = 1\<rparr>]) \<and>
   distinct (map (\<lambda>e. trim (fst e))
     [(''E'', JArray []),
      (''A'', JArray [JObject [(''action'', JString ''x''), (''result'', JString ''y'')]])]) \<and>
   regroupByCategory
     [\<lparr>test_id = ''A-0-1'', category = ''A'', action = ''x'', expected = ''y'',
        sequence = 1\<rparr>] ''A'' = Some [\<lparr>g_action = ''x'', g_result = ''y''\<rparr>] \<and>
   regroupByCategory
     [\<lparr>test_id = ''A-0-1'', category = ''A'', action = ''x'', expected = ''y'',
        sequence = 1\<rparr>] ''E'' = None"
proof -
  let ?entries = "[(''E'', JArray []),
      (''A'', JArray [JObject [(''action'', JString ''x''), (''result'', JString ''y'')]])]"
  have parsed: "JSON_parse_examples text_empty_category = Some (JObject ?entries)"
    by code_simp
  have run: "parsePlan JSON_parse_examples text_empty_category
     = Inr ([(''E'', []), (''A'', [\<lparr>g_action = ''x'', g_result = ''y''\<rparr>])],
            [\<lparr>test_id = ''A-0-1'', category = ''A'', action = ''x'', expected = ''y'',
               sequence = 1\<rparr>])"
    by code_simp
  have names: "distinct (map (\<lambda>e. trim (fst e)) ?entries)"
    by code_simp
  have proto: "''__proto__'' \<notin> (\<lambda>e. trim (fst e)) ` set ?entries"
    by (simp add: trim_def is_space_def)
  from regroup_reproduces_source [OF run parsed names proto, of "''A''"]
       regroup_reproduces_source [OF run parsed names proto, of "''E''"]
       run names
  show ?thesis by simp
qed

text \<open>
  Claim C5, at an input where the code departs from it.  The keys \<open>"A"\<close> and \<open>" A"\<close> are
  two categories of the input and both trim to \<open>A\<close>.  The second \<open>source[category] = []\<close>
  discards the item stored for the first, so \<open>source\<close> holds one item where the input
  and the flattened list hold two.
\<close>

theorem same_name_categories_lose_items:
  "parsePlan JSON_parse_examples text_same_name
     = Inr ([(''A'', [\<lparr>g_action = ''z'', g_result = ''w''\<rparr>])],
            [\<lparr>test_id = ''A-0-1'', category = ''A'', action = ''x'', expected = ''y'',
               sequence = 1\<rparr>,
             \<lparr>test_id = ''A-0-2'', category = ''A'', action = ''z'', expected = ''w'',
               sequence = 2\<rparr>])"
  by code_simp

section \<open>The report of a finished run\<close>

text \<open>
  The totals of \<open>buildReport\<close>, and the entry of \<open>getCategorySummary\<close> for a category: the
  counts of its results when its name is not a property name of \<open>Object.prototype\<close>, and
  no entry when it is.
\<close>

lemma getCategorySummary_snoc:
  "getCategorySummary (rs @ [r]) = count_result (getCategorySummary rs) r"
  by (simp add: getCategorySummary_def)

lemma map_of_count_result_other:
  "category r \<noteq> c \<Longrightarrow> map_of (count_result summary r) c = map_of summary c"
  by (simp add: count_result_def Let_def map_of_obj_put split: option.splits)

lemma map_of_count_result_inherited:
  assumes "category r \<in> set Object_prototype_keys" and "map_of summary (category r) = None"
  shows "count_result summary r = summary"
  using assms by (simp add: count_result_def summary_has_def)

lemma map_of_count_result_own:
  assumes "category r \<notin> set Object_prototype_keys"
  shows "map_of (count_result summary r) (category r) =
           Some (let counts = (case map_of summary (category r) of
                                 None \<Rightarrow> \<lparr>passed = 0, failed = 0, total = 0\<rparr>
                               | Some counts \<Rightarrow> counts)
                 in if verdict r = Pass
                    then counts\<lparr>total := total counts + 1, passed := passed counts + 1\<rparr>
                    else counts\<lparr>total := total counts + 1, failed := failed counts + 1\<rparr>)"
  using assms
  by (auto simp: count_result_def summary_has_def Let_def map_of_obj_put split: option.splits)

lemma getCategorySummary_inherited:
  "c \<in> set Object_prototype_keys \<Longrightarrow> map_of (getCategorySummary rs) c = None"
proof (induction rs rule: rev_induct)
  case Nil
  then show ?case by (simp add: getCategorySummary_def)
next
  case (snoc r rs)
  show ?case
  proof (cases "category r = c")
    case True
    with snoc show ?thesis
      by (simp add: getCategorySummary_snoc map_of_count_result_inherited)
  next
    case False
    with snoc show ?thesis
      by (simp add: getCategorySummary_snoc map_of_count_result_other)
  qed
qed

lemma getCategorySummary_own:
  "c \<notin> set Object_prototype_keys \<Longrightarrow>
     map_of (getCategorySummary rs) c =
       (if filter (\<lambda>r. category r = c) rs = [] then None else Some (counts_of rs c))"
proof (induction rs rule: rev_induct)
  case Nil
  then show ?case by (simp add: getCategorySummary_def)
next
  case (snoc r rs)
  show ?case
  proof (cases "category r = c")
    case False
    with snoc show ?thesis
      by (simp add: getCategorySummary_snoc map_of_count_result_other counts_of_def)
  next
    case True
    with snoc.prems have own: "category r \<notin> set Object_prototype_keys" by simp
    from snoc.IH [OF snoc.prems] have
      before: "map_of (getCategorySummary rs) (category r) =
         (if filter (\<lambda>x. category x = category r) rs = [] then None
          else Some (counts_of rs (category r)))"
      by (simp only: True)
    have "map_of (getCategorySummary (rs @ [r])) (category r) =
            Some (counts_of (rs @ [r]) (category r))"
      by (auto simp: getCategorySummary_snoc map_of_count_result_own [OF own] before
            counts_of_def Let_def filter_empty_conv)
    with True show ?thesis by simp
  qed
qed

lemma buildReport_totals:
  "report_passed (buildReport newId now name source rs) = length (filter (\<lambda>r. verdict r = Pass) rs) \<and>
   report_failed (buildReport newId now name source rs) = length rs - report_passed (buildReport newId now name source rs) \<and>
   report_total (buildReport newId now name source rs) = length rs \<and>
   report_passed (buildReport newId now name source rs) + report_failed (buildReport newId now name source rs) = length rs \<and>
   report_results (buildReport newId now name source rs) = rs"
  by (simp add: buildReport_def Let_def)

text \<open>
  Claim C6, at an input where the code departs from it.  One result of category
  \<open>constructor\<close>, passed: the totals are right, and \<open>byCategory\<close> has no entry at all,
  because \<open>summary["constructor"]\<close> finds the function inherited from \<open>Object.prototype\<close>
  and the entry for the category is never created.
\<close>

theorem inherited_category_missing_from_summary:
  "report_total (buildReport ''r1'' ''t1'' ''Regression Plan''
      [(''constructor'', [\<lparr>g_action = ''x'', g_result = ''y''\<rparr>])] results_constructor) = 1 \<and>
   report_passed (buildReport ''r1'' ''t1'' ''Regression Plan''
      [(''constructor'', [\<lparr>g_action = ''x'', g_result = ''y''\<rparr>])] results_constructor) = 1 \<and>
   byCategory (buildReport ''r1'' ''t1'' ''Regression Plan''
      [(''constructor'', [\<lparr>g_action = ''x'', g_result = ''y''\<rparr>])] results_constructor) = []"
  by code_simp

section \<open>Rejected requests\<close>

text \<open>
  The guards of \<open>recordVerdict\<close>, \<open>undoLast\<close> and \<open>commitVerdict\<close>.
\<close>

lemma recordVerdict_rejected:
  "step s \<noteq> Run \<or> exitVerdict s \<noteq> None \<or> \<not> cursor s < length (tests s)
     \<Longrightarrow> recordVerdict offscreenDistance v s = s"
  by (auto simp: recordVerdict_def)

lemma undoLast_rejected:
  "step s \<noteq> Run \<or> cursor s = 0 \<or> exitVerdict s \<noteq> None \<Longrightarrow> undoLast s = s"
  by (auto simp: undoLast_def)

lemma commitVerdict_rejected:
  "step s \<noteq> Run \<or> \<not> cursor s < length (tests s)
     \<Longrightarrow> commitVerdict newId now v s = Inr s"
  by (auto simp: commitVerdict_def)

lemma handle_request_in_flight:
  "exitVerdict s \<noteq> None \<Longrightarrow> handle_request r s = s"
  by (cases r) (simp_all add: recordVerdict_rejected undoLast_rejected)

lemma fold_requests_in_flight:
  "exitVerdict s \<noteq> None \<Longrightarrow> fold handle_request rs s = s"
  by (induction rs) (simp_all add: handle_request_in_flight)

lemma recordVerdict_accepted:
  assumes "step s = Run" and "exitVerdict s = None" and "cursor s < length (tests s)"
  shows "recordVerdict offscreenDistance v s =
           s\<lparr>isDragging := False, exitVerdict := Some v,
             dragOffset := (if v = Pass then offscreenDistance else - offscreenDistance),
             swipeTimeoutRef := Some v\<rparr>"
  using assms by (simp add: recordVerdict_def)

section \<open>Committing a verdict\<close>

text \<open>
  What \<open>commitVerdict\<close> returns when its guards pass and reading the comment does not raise,
  and what \<open>finishRun\<close> does when a plan is loaded.
\<close>

lemma array_set_in_range: "i < length xs \<Longrightarrow> array_set xs i v = xs[i := v]"
  by (simp add: array_set_def)

lemma array_set_nth: "array_set xs i v ! i = v"
  by (simp add: array_set_def nth_append)

lemma array_set_undo:
  "i < length xs \<Longrightarrow> xs ! i = None \<Longrightarrow> array_set (array_set xs i v) i None = xs"
  by (simp add: array_set_def list_update_same_conv)

lemma draft_comment_plain:
  "key \<notin> set Object_prototype_keys \<Longrightarrow>
     draft_comment drafts key
       = Inr (trim (case map_of drafts key of None \<Rightarrow> [] | Some text \<Rightarrow> text))"
  by (simp add: draft_comment_def split: option.splits)

lemma commitVerdict_accepted:
  assumes "step s = Run" and "cursor s < length (tests s)"
    and "test_id (tests s ! cursor s) \<notin> set Object_prototype_keys"
  shows "commitVerdict newId now v s =
           Inr (let nextResults = array_set (results s) (cursor s)
                      (Some (make_result (tests s ! cursor s) v (trim (current_draft s))));
                    s1 = s\<lparr>results := nextResults, isDragging := False\<rparr>
                in if cursor s + 1 \<ge> length (tests s)
                   then finishRun newId now nextResults s1
                   else s1\<lparr>cursor := cursor s + 1\<rparr>)"
  using assms
  by (simp add: commitVerdict_def draft_comment_plain make_result_def current_draft_def Let_def)

lemma finishRun_loaded:
  assumes "sourcePlan s = Some source"
  shows "finishRun newId now nextResults s =
           s\<lparr>history := take MAX_HISTORY_ITEMS
                 (buildReport newId now
                    (if trim (suiteName s) = [] then ''Untitled Plan'' else trim (suiteName s))
                    source (List.map_filter (\<lambda>item. item) nextResults) # history s),
             activeReportId := Some newId,
             step := Report\<rparr>"
  using assms by (simp add: finishRun_def Let_def buildReport_def)

lemma map_filter_non_null:
  "map Some (List.map_filter (\<lambda>item. item) xs) = filter (\<lambda>item. item \<noteq> None) xs"
  by (induction xs) (auto simp: List.map_filter_simps split: option.splits)

section \<open>The states of a session\<close>

text \<open>
  \<open>app_inv\<close> holds when the component has mounted and is kept by every event.
\<close>

lemma slots_filled:
  assumes "length xs = n"
  shows "list_all (\<lambda>item. item \<noteq> None) (take c xs) \<longleftrightarrow> (\<forall>j<n. j < c \<longrightarrow> xs ! j \<noteq> None)"
proof -
  have "list_all (\<lambda>item. item \<noteq> None) (take c xs)
          \<longleftrightarrow> (\<forall>j<min n c. take c xs ! j \<noteq> None)"
    by (simp add: list_all_length assms)
  also have "\<dots> \<longleftrightarrow> (\<forall>j<n. j < c \<longrightarrow> xs ! j \<noteq> None)"
    by auto
  finally show ?thesis .
qed

lemma slots_empty:
  assumes "length xs = n"
  shows "drop c xs = replicate (n - c) None \<longleftrightarrow> (\<forall>j<n. c \<le> j \<longrightarrow> xs ! j = None)"
proof
  assume eq: "drop c xs = replicate (n - c) None"
  show "\<forall>j<n. c \<le> j \<longrightarrow> xs ! j = None"
  proof (intro allI impI)
    fix j assume j: "j < n" "c \<le> j"
    then have "xs ! j = drop c xs ! (j - c)"
      using assms by simp
    also have "\<dots> = None"
      using j by (simp add: eq)
    finally show "xs ! j = None" .
  qed
next
  assume all: "\<forall>j<n. c \<le> j \<longrightarrow> xs ! j = None"
  show "drop c xs = replicate (n - c) None"
  proof (rule nth_equalityI)
    show "length (drop c xs) = length (replicate (n - c) (None :: 'a option))"
      using assms by simp
  next
    fix i assume "i < length (drop c xs)"
    then have i: "c + i < n" using assms by simp
    then have "drop c xs ! i = xs ! (c + i)" using assms by simp
    also from all i have "\<dots> = None" by simp
    finally show "drop c xs ! i = replicate (n - c) None ! i"
      using i by simp
  qed
qed

lemma run_wf_slots:
  "run_wf s \<longleftrightarrow>
     sourcePlan s \<noteq> None \<and> cursor s < length (tests s) \<and>
     length (results s) = length (tests s) \<and>
     (\<forall>j<length (tests s). (results s ! j = None) = (cursor s \<le> j)) \<and>
     list_all (\<lambda>t. test_id t \<notin> set Object_prototype_keys) (tests s)"
proof (cases "length (results s) = length (tests s)")
  case False
  then show ?thesis by (simp add: run_wf_def)
next
  case True
  have "(\<forall>j<length (tests s). (results s ! j = None) = (cursor s \<le> j))
          \<longleftrightarrow> (\<forall>j<length (tests s). j < cursor s \<longrightarrow> results s ! j \<noteq> None) \<and>
              (\<forall>j<length (tests s). cursor s \<le> j \<longrightarrow> results s ! j = None)"
    by (metis not_le)
  then show ?thesis
    unfolding run_wf_def slots_filled [OF True] slots_empty [OF True] by blast
qed

lemma run_wf_current:
  assumes "run_wf s"
  shows "cursor s < length (results s) \<and> results s ! cursor s = None \<and>
         test_id (tests s ! cursor s) \<notin> set Object_prototype_keys"
  using assms unfolding run_wf_slots by (auto simp: list_all_length)

lemma last_digit_not_inherited:
  assumes "last key \<in> set ''0123456789''"
  shows "key \<notin> set Object_prototype_keys"
proof
  assume "key \<in> set Object_prototype_keys"
  then have "last key \<in> set ''rypf_eg''"
    by (auto simp: Object_prototype_keys_def)
  with assms show False by auto
qed

lemma flat_of_id_plain: "test_id (flat_of c i n test) \<notin> set Object_prototype_keys"
proof (rule last_digit_not_inherited)
  have "last (test_id (flat_of c i n test)) = last (decimal n)"
    by (simp add: flat_of_def decimal_nonempty)
  moreover have "last (decimal n) \<in> set (decimal n)"
    by (rule last_in_set) (rule decimal_nonempty)
  then have "last (decimal n) \<in> set ''0123456789''"
    by (rule subsetD [OF decimal_digits])
  ultimately show "last (test_id (flat_of c i n test)) \<in> set ''0123456789''"
    by (simp only:)
qed

lemma parsePlan_ids_plain:
  assumes "parsePlan JSON_parse rawText = Inr (source, flattened)"
  shows "list_all (\<lambda>t. test_id t \<notin> set Object_prototype_keys) flattened"
proof -
  from assms obtain entries where parsed: "JSON_parse rawText = Some (JObject entries)"
    by (rule parsePlan_success)
  have "test_id t \<notin> set Object_prototype_keys" if "t \<in> set flattened" for t
  proof -
    from parsePlan_ids [OF assms parsed that] obtain k ts j where
      "t = flat_of (trim k) j (sequence t) (ts ! j)" by blast
    then show ?thesis by (metis flat_of_id_plain)
  qed
  then show ?thesis by (simp add: list_all_iff)
qed

lemma app_inv_mount:
  assumes "stored_ok item"
  shows "app_inv (mount draft item)"
  using assms
  by (auto simp: app_inv_def mount_def load_history_def initial_state_def stored_ok_def
                 MAX_HISTORY_ITEMS_def split: option.splits stored_item.splits)

lemma run_wf_submitted:
  assumes "parsePlan JSON_parse rawText = Inr (source, flattened)"
  shows "run_wf (s\<lparr>sourcePlan := Some source, tests := flattened,
                   results := replicate (length flattened) None, cursor := 0\<rparr>)"
proof -
  from assms have "flattened \<noteq> []" by (rule parsePlan_success)
  with parsePlan_ids_plain [OF assms] show ?thesis
    by (simp add: run_wf_def)
qed

lemma run_wf_committed:
  assumes "run_wf s" and "cursor s + 1 < length (tests s)"
  shows "run_wf (s\<lparr>results := array_set (results s) (cursor s) (Some r),
                   cursor := cursor s + 1\<rparr>)"
proof -
  from assms(1) have len: "length (results s) = length (tests s)"
    and cur: "cursor s < length (tests s)"
    and slots: "\<forall>j<length (tests s). (results s ! j = None) = (cursor s \<le> j)"
    by (simp_all add: run_wf_slots)
  have "((results s)[cursor s := Some r] ! j = None) = (cursor s + 1 \<le> j)"
    if "j < length (tests s)" for j
    using that slots len by (cases "j = cursor s") auto
  with assms len cur show ?thesis
    by (simp add: run_wf_slots array_set_in_range)
qed

lemma run_wf_undone:
  assumes "run_wf s" and "0 < cursor s"
  shows "run_wf (s\<lparr>results := array_set (results s) (cursor s - 1) None,
                   cursor := cursor s - 1\<rparr>)"
proof -
  from assms(1) have len: "length (results s) = length (tests s)"
    and cur: "cursor s < length (tests s)"
    and slots: "\<forall>j<length (tests s). (results s ! j = None) = (cursor s \<le> j)"
    by (simp_all add: run_wf_slots)
  have "((results s)[cursor s - 1 := None] ! j = None) = (cursor s - 1 \<le> j)"
    if "j < length (tests s)" for j
    using that slots len assms(2) by (cases "j = cursor s - 1") auto
  with assms len cur show ?thesis
    by (simp add: run_wf_slots array_set_in_range)
qed

lemma run_wf_cong:
  assumes "sourcePlan s' = sourcePlan s" and "tests s' = tests s" and "cursor s' = cursor s"
    and "results s' = results s"
  shows "run_wf s' = run_wf s"
  using assms by (simp add: run_wf_def)

lemma app_inv_recordVerdict:
  assumes "app_inv s"
  shows "app_inv (recordVerdict offscreenDistance v s)"
proof (cases "step s \<noteq> Run \<or> exitVerdict s \<noteq> None \<or> \<not> cursor s < length (tests s)")
  case True
  with assms show ?thesis by (simp add: recordVerdict_rejected)
next
  case False
  then have "recordVerdict offscreenDistance v s =
           s\<lparr>isDragging := False, exitVerdict := Some v,
             dragOffset := (if v = Pass then offscreenDistance else - offscreenDistance),
             swipeTimeoutRef := Some v\<rparr>"
    by (simp add: recordVerdict_accepted)
  with assms False show ?thesis
    by (simp add: app_inv_def run_wf_def)
qed

lemma undoLast_accepted:
  assumes "step s = Run" and "0 < cursor s" and "exitVerdict s = None"
  shows "undoLast s =
           s\<lparr>results := array_set (results s) (cursor s - 1) None, cursor := cursor s - 1,
             dragOffset := 0, isDragging := False\<rparr>"
  using assms by (simp add: undoLast_def Let_def)

lemma app_inv_undoLast:
  assumes "app_inv s"
  shows "app_inv (undoLast s)"
proof (cases "step s \<noteq> Run \<or> cursor s = 0 \<or> exitVerdict s \<noteq> None")
  case True
  with assms show ?thesis by (simp add: undoLast_rejected)
next
  case False
  then have run: "step s = Run" and pos: "0 < cursor s" and idle: "exitVerdict s = None"
    by simp_all
  from assms run have "run_wf s" by (simp add: app_inv_def)
  from run_wf_undone [OF this pos] have
    "run_wf (s\<lparr>results := array_set (results s) (cursor s - 1) None, cursor := cursor s - 1,
               dragOffset := 0, isDragging := False\<rparr>)"
    by (simp add: run_wf_def)
  with assms run show ?thesis
    by (simp add: undoLast_accepted [OF run pos idle] app_inv_def)
qed

lemma app_inv_callback:
  assumes "app_inv s" and "swipeTimeout_callback newId now s = Inr s'"
  shows "app_inv s'"
proof (cases "swipeTimeoutRef s")
  case None
  with assms show ?thesis by (simp add: swipeTimeout_callback_def)
next
  case (Some v)
  with assms(1) have flight: "exitVerdict s = Some v" by (simp add: app_inv_def)
  with assms(1) have run: "step s = Run" and wf: "run_wf s"
    by (auto simp: app_inv_def split: if_splits)
  from wf have cur: "cursor s < length (tests s)" and src: "sourcePlan s \<noteq> None"
    by (simp_all add: run_wf_def)
  from src obtain source where source: "sourcePlan s = Some source" by blast
  note plain = run_wf_current [OF wf, THEN conjunct2, THEN conjunct2]
  let ?r = "make_result (tests s ! cursor s) v (trim (current_draft s))"
  show ?thesis
  proof (cases "cursor s + 1 < length (tests s)")
    case True
    with commitVerdict_accepted [OF run cur plain, of newId now v] assms(2) Some
    have s': "s' = s\<lparr>results := array_set (results s) (cursor s) (Some ?r),
                     isDragging := False, cursor := cursor s + 1,
                     exitVerdict := None, dragOffset := 0, swipeTimeoutRef := None\<rparr>"
      by (auto simp: swipeTimeout_callback_def Let_def)
    from run_wf_committed [OF wf True, of ?r] have "run_wf s'"
      unfolding s' by (simp add: run_wf_def)
    with assms(1) run show ?thesis
      unfolding s' by (simp add: app_inv_def)
  next
    case False
    have "sourcePlan (s\<lparr>results := rs, isDragging := False\<rparr>) = Some source" for rs
      using source by simp
    note fin = finishRun_loaded [OF this]
    from False commitVerdict_accepted [OF run cur plain, of newId now v] assms(2) Some
    have "step s' = Report" and "exitVerdict s' = None" and "swipeTimeoutRef s' = None"
      and "historyItem s' = historyItem s"
      and "length (history s') \<le> MAX_HISTORY_ITEMS"
      by (auto simp: swipeTimeout_callback_def Let_def fin)
    with assms(1) show ?thesis
      by (simp add: app_inv_def)
  qed
qed

lemma app_inv_submitPlan:
  assumes "app_inv s" and "step s = Input"
  shows "app_inv (submitPlan JSON_parse s)"
proof (cases "parsePlan JSON_parse (jsonDraft s)")
  case (Inl e)
  with assms show ?thesis
    by (cases e) (simp_all add: submitPlan_def app_inv_def)
next
  case (Inr ok)
  obtain source flattened where ok: "ok = (source, flattened)" by (cases ok)
  from run_wf_submitted [OF Inr [unfolded ok], of "s"]
  have "run_wf (submitPlan JSON_parse s)"
    by (simp add: submitPlan_def Inr ok run_wf_def)
  with assms show ?thesis
    by (simp add: submitPlan_def Inr ok app_inv_def)
qed

lemma app_inv_apply_event:
  assumes "app_inv s" and "apply_event JSON_parse e s = Inr s'"
  shows "app_inv s'"
proof (cases e)
  case (Reload draft)
  from assms(1) have "stored_ok (historyItem s)" by (simp add: app_inv_def)
  from app_inv_mount [OF this] Reload assms(2) show ?thesis by auto
next
  case (SetJsonDraft d)
  with assms show ?thesis by (auto simp: app_inv_def run_wf_def)
next
  case (ImportDraft d)
  with assms show ?thesis by (auto simp: app_inv_def run_wf_def)
next
  case (SetSuiteName d)
  with assms show ?thesis
    by (cases "step s = Input") (auto simp: app_inv_def run_wf_def)
next
  case Home
  with assms show ?thesis
    by (cases "step s = Input \<or> step s = Report") (auto simp: app_inv_def)
next
  case OpenHistory
  with assms show ?thesis
    by (cases "step s = Start \<and> history s \<noteq> []") (auto simp: app_inv_def)
next
  case OpenNewPlan
  with assms show ?thesis by (auto simp: app_inv_def openNewPlan_def clearRunState_def)
next
  case SubmitPlan
  with assms show ?thesis
    by (cases "step s = Input") (auto simp: app_inv_submitPlan)
next
  case (UpdateComment testId value')
  with assms show ?thesis
    by (cases "step s = Run \<and> exitVerdict s = None")
       (auto simp: app_inv_def run_wf_def updateComment_def)
next
  case (Request r)
  with assms show ?thesis by (cases r) (auto simp: app_inv_recordVerdict app_inv_undoLast)
next
  case (TimerFires newId now)
  with assms show ?thesis by (auto intro: app_inv_callback)
next
  case (SetDrag offset dragging)
  with assms show ?thesis by (auto simp: app_inv_def run_wf_def)
next
  case (SelectReport reportId)
  with assms show ?thesis
    by (cases "reportId \<in> set (map report_id (history s))") (auto simp: app_inv_def run_wf_def)
next
  case (DeleteReport reportId)
  have "length (filter P (history s)) \<le> MAX_HISTORY_ITEMS" for P
    using assms(1) by (meson app_inv_def le_trans length_filter_le)
  with DeleteReport assms show ?thesis
    by (auto simp: app_inv_def run_wf_def deleteReport_def Let_def)
next
  case ClearHistory
  with assms show ?thesis by (auto simp: app_inv_def run_wf_def clearHistory_def)
next
  case PersistHistory
  with assms show ?thesis
    by (auto simp: app_inv_def run_wf_def persist_history_def stored_ok_def)
qed

lemma app_inv_after_event:
  assumes "app_inv s"
  shows "app_inv (after_event JSON_parse s e)"
  using assms app_inv_apply_event [of s JSON_parse e]
  by (cases "apply_event JSON_parse e s") (simp_all add: after_event_def)

lemma app_inv_foldl:
  "app_inv s \<Longrightarrow> app_inv (foldl (after_event JSON_parse) s events)"
  by (induction events arbitrary: s) (simp_all add: app_inv_after_event)

lemma session_inv: "app_inv (session JSON_parse draft events)"
  unfolding session_def
  by (rule app_inv_foldl) (simp add: app_inv_mount stored_ok_def)

section \<open>Committing and undoing\<close>

text \<open>
  A commit that does not finish the run, followed by \<open>undoLast\<close>, gives back the state
  but for the drag display; the request path through the timer does the same.
\<close>

lemma commit_then_undo:
  assumes "step s = Run" and "exitVerdict s = None" and "cursor s + 1 < length (tests s)"
    and "cursor s < length (results s)" and "results s ! cursor s = None"
    and "test_id (tests s ! cursor s) \<notin> set Object_prototype_keys"
  shows "\<exists>s1. commitVerdict newId now v s = Inr s1 \<and>
           undoLast s1 = s\<lparr>dragOffset := 0, isDragging := False\<rparr>"
proof -
  let ?r = "make_result (tests s ! cursor s) v (trim (current_draft s))"
  let ?s1 = "s\<lparr>results := array_set (results s) (cursor s) (Some ?r), isDragging := False,
               cursor := cursor s + 1\<rparr>"
  from assms(3) have cur: "cursor s < length (tests s)" by simp
  from commitVerdict_accepted [OF assms(1) cur assms(6), of newId now v] assms(3)
  have commit: "commitVerdict newId now v s = Inr ?s1"
    by (simp add: Let_def)
  have "undoLast ?s1 = ?s1\<lparr>results := array_set (results ?s1) (cursor ?s1 - 1) None,
           cursor := cursor ?s1 - 1, dragOffset := 0, isDragging := False\<rparr>"
    by (rule undoLast_accepted) (use assms in simp_all)
  also have "\<dots> = s\<lparr>dragOffset := 0, isDragging := False\<rparr>"
    using array_set_undo [OF assms(4,5), of "Some ?r"] by simp
  finally show ?thesis using commit by blast
qed

lemma commitVerdict_in_flight:
  "commitVerdict newId now v
     (s\<lparr>isDragging := False, exitVerdict := Some w, dragOffset := d, swipeTimeoutRef := Some w\<rparr>)
   = (case commitVerdict newId now v s of
        Inl e \<Rightarrow> Inl e
      | Inr s' \<Rightarrow> Inr (s'\<lparr>isDragging := False, exitVerdict := Some w, dragOffset := d,
                         swipeTimeoutRef := Some w\<rparr>))"
  by (simp add: commitVerdict_def finishRun_def Let_def split: sum.splits option.splits)

lemma verdict_flow:
  assumes "step s = Run" and "exitVerdict s = None" and "cursor s < length (tests s)"
  shows "swipeTimeout_callback newId now (recordVerdict offscreenDistance v s)
           = (case commitVerdict newId now v s of
                Inl e \<Rightarrow> Inl e
              | Inr s' \<Rightarrow> Inr (s'\<lparr>isDragging := False, exitVerdict := None, dragOffset := 0,
                                 swipeTimeoutRef := None\<rparr>))"
  by (simp add: recordVerdict_accepted [OF assms] swipeTimeout_callback_def
        commitVerdict_in_flight split: sum.splits)

lemma verdict_then_undo:
  assumes "step s = Run" and "exitVerdict s = None" and "cursor s + 1 < length (tests s)"
    and "cursor s < length (results s)" and "results s ! cursor s = None"
    and "test_id (tests s ! cursor s) \<notin> set Object_prototype_keys"
  shows "\<exists>s1. swipeTimeout_callback newId now (recordVerdict offscreenDistance v s) = Inr s1 \<and>
           undoLast s1 = s\<lparr>dragOffset := 0, isDragging := False, swipeTimeoutRef := None\<rparr>"
proof -
  let ?r = "make_result (tests s ! cursor s) v (trim (current_draft s))"
  let ?s1 = "s\<lparr>results := array_set (results s) (cursor s) (Some ?r), cursor := cursor s + 1,
               isDragging := False, exitVerdict := None, dragOffset := 0,
               swipeTimeoutRef := None\<rparr>"
  from assms(3) have cur: "cursor s < length (tests s)" by simp
  from commitVerdict_accepted [OF assms(1) cur assms(6), of newId now v] assms(3)
  have "commitVerdict newId now v s
          = Inr (s\<lparr>results := array_set (results s) (cursor s) (Some ?r), isDragging := False,
                   cursor := cursor s + 1\<rparr>)"
    by (simp add: Let_def)
  then have flow: "swipeTimeout_callback newId now (recordVerdict offscreenDistance v s) = Inr ?s1"
    by (simp add: verdict_flow [OF assms(1,2) cur])
  have "undoLast ?s1 = ?s1\<lparr>results := array_set (results ?s1) (cursor ?s1 - 1) None,
           cursor := cursor ?s1 - 1, dragOffset := 0, isDragging := False\<rparr>"
    by (rule undoLast_accepted) (use assms in simp_all)
  also have "\<dots> = s\<lparr>dragOffset := 0, isDragging := False, swipeTimeoutRef := None\<rparr>"
    using array_set_undo [OF assms(4,5), of "Some ?r"] assms(2) by simp
  finally show ?thesis using flow by blast
qed

lemma commit_undo_rounds_result:
  assumes "step s = Run" and "exitVerdict s = None" and "cursor s + 1 < length (tests s)"
    and "cursor s < length (results s)" and "results s ! cursor s = None"
    and "test_id (tests s ! cursor s) \<notin> set Object_prototype_keys"
  shows "commit_undo_rounds newId now vs s
           = Inr (if vs = [] then s else s\<lparr>dragOffset := 0, isDragging := False\<rparr>)"
  using assms
proof (induction vs arbitrary: s)
  case Nil
  then show ?case by simp
next
  case (Cons v vs)
  let ?t = "s\<lparr>dragOffset := 0, isDragging := False\<rparr>"
  from commit_then_undo [OF Cons.prems, of newId now v] obtain s1 where
    one: "commitVerdict newId now v s = Inr s1" and undone: "undoLast s1 = ?t"
    by blast
  have "commit_undo_rounds newId now vs ?t
          = Inr (if vs = [] then ?t else ?t\<lparr>dragOffset := 0, isDragging := False\<rparr>)"
    by (rule Cons.IH) (use Cons.prems in simp_all)
  with one undone show ?case by simp
qed

lemma session_run_wf:
  "step (session JSON_parse draft events) = Run \<Longrightarrow> run_wf (session JSON_parse draft events)"
  using session_inv [of JSON_parse draft events] by (simp add: app_inv_def)

lemma session_run_ready:
  assumes "step (session JSON_parse draft events) = Run"
  shows "\<exists>source. sourcePlan (session JSON_parse draft events) = Some source"
    and "cursor (session JSON_parse draft events)
           < length (tests (session JSON_parse draft events))"
    and "cursor (session JSON_parse draft events)
           < length (results (session JSON_parse draft events))"
    and "results (session JSON_parse draft events) ! cursor (session JSON_parse draft events)
           = None"
    and "test_id (tests (session JSON_parse draft events)
                    ! cursor (session JSON_parse draft events))
           \<notin> set Object_prototype_keys"
proof -
  note wf = session_run_wf [OF assms]
  from wf show "\<exists>source. sourcePlan (session JSON_parse draft events) = Some source"
    and "cursor (session JSON_parse draft events)
           < length (tests (session JSON_parse draft events))"
    by (simp_all add: run_wf_def)
  from run_wf_current [OF wf]
  show "cursor (session JSON_parse draft events)
           < length (results (session JSON_parse draft events))"
    and "results (session JSON_parse draft events) ! cursor (session JSON_parse draft events)
           = None"
    and "test_id (tests (session JSON_parse draft events)
                    ! cursor (session JSON_parse draft events))
           \<notin> set Object_prototype_keys"
    by simp_all
qed

lemma session_timer:
  "swipeTimeoutRef (session JSON_parse draft events) = exitVerdict (session JSON_parse draft events)
   \<and> (exitVerdict (session JSON_parse draft events) \<noteq> None
        \<longrightarrow> step (session JSON_parse draft events) = Run)"
  using session_inv [of JSON_parse draft events] by (auto simp: app_inv_def split: if_splits)

lemma callback_never_raises:
  assumes "app_inv s"
  shows "\<exists>s'. swipeTimeout_callback newId now s = Inr s'"
proof (cases "swipeTimeoutRef s")
  case None
  then show ?thesis by (simp add: swipeTimeout_callback_def)
next
  case (Some v)
  with assms have "exitVerdict s = Some v" by (simp add: app_inv_def)
  with assms have run: "step s = Run" and wf: "run_wf s"
    by (auto simp: app_inv_def split: if_splits)
  from wf have cur: "cursor s < length (tests s)" by (simp add: run_wf_def)
  note plain = run_wf_current [OF wf, THEN conjunct2, THEN conjunct2]
  from commitVerdict_accepted [OF run cur plain, of newId now v] Some show ?thesis
    by (simp add: swipeTimeout_callback_def)
qed

section \<open>The examples of the specification\<close>

text \<open>
  The four examples the specification lists among its testable properties.
\<close>

lemma example_single_test:
  "map test_id (tests (run_of text_one)) = [''A-0-1''] \<and>
   step (session JSON_parse_examples [] (pass_single_test text_one)) = Report \<and>
   map report_total (history (session JSON_parse_examples [] (pass_single_test text_one))) = [1] \<and>
   map report_passed (history (session JSON_parse_examples [] (pass_single_test text_one))) = [1] \<and>
   map report_failed (history (session JSON_parse_examples [] (pass_single_test text_one))) = [0] \<and>
   map byCategory (history (session JSON_parse_examples [] (pass_single_test text_one)))
     = [[(''A'', \<lparr>passed = 1, failed = 0, total = 1\<rparr>)]]"
  by code_simp

lemma example_empty_object:
  "parsePlan JSON_parse_examples text_empty_object
     = Inl (Error ''No tests were found in the plan.'')"
  by code_simp

lemma example_not_array:
  "parsePlan JSON_parse_examples text_not_array
     = Inl (Error (''Category '' @ dquote @ ''A'' @ dquote @ '' must contain an array.''))"
  by code_simp

lemma example_two_categories:
  "map report_total (history (session JSON_parse_examples [] (fail_then_pass text_two_categories)))
     = [2] \<and>
   map report_passed (history (session JSON_parse_examples [] (fail_then_pass text_two_categories)))
     = [1] \<and>
   map report_failed (history (session JSON_parse_examples [] (fail_then_pass text_two_categories)))
     = [1] \<and>
   map byCategory (history (session JSON_parse_examples [] (fail_then_pass text_two_categories)))
     = [[(''A'', \<lparr>passed = 0, failed = 1, total = 1\<rparr>),
         (''B'', \<lparr>passed = 1, failed = 0, total = 1\<rparr>)]]"
  by code_simp

section \<open>Runs that end with a report unlike the plan\<close>

text \<open>
  A category named like a property of \<open>Object.prototype\<close> is missing from the category
  summary of the report; a category named \<open>__proto__\<close> is not a key of \<open>source\<close>; of two
  categories with the same trimmed name, \<open>source\<close> keeps the items of the second.
\<close>

lemma constructor_run_report:
  "map report_total (history (session JSON_parse_examples [] (pass_single_test text_constructor)))
     = [1] \<and>
   map byCategory (history (session JSON_parse_examples [] (pass_single_test text_constructor)))
     = [[]] \<and>
   map (map category \<circ> report_results)
       (history (session JSON_parse_examples [] (pass_single_test text_constructor)))
     = [[''constructor'']]"
  by code_simp

lemma proto_category_is_not_a_key:
  "parsePlan JSON_parse_examples text_proto
     = Inr ([], [\<lparr>test_id = ''__proto__-0-1'', category = ''__proto__'', action = ''x'',
                   expected = ''y'', sequence = 1\<rparr>])"
  by code_simp

lemma same_name_run_source:
  "sourcePlan (run_of text_same_name) = Some [(''A'', [\<lparr>g_action = ''z'', g_result = ''w''\<rparr>])] \<and>
   map test_id (tests (run_of text_same_name)) = [''A-0-1'', ''A-0-2'']"
  by code_simp

section \<open>The length of the history\<close>

text \<open>
  No handler makes the history longer than the larger of \<open>MAX_HISTORY_ITEMS\<close> and the
  number of reports found stored when the page was opened: only \<open>finishRun\<close> adds a
  report, and it cuts the list; the load effect installs the stored array as it is.
\<close>

lemma session_from_nothing:
  "session_from JSON_parse draft None events = session JSON_parse draft events"
  by (simp add: session_from_def session_def)

lemma stored_ok_count: "stored_ok item \<longleftrightarrow> stored_count item \<le> MAX_HISTORY_ITEMS"
  by (simp add: stored_ok_def stored_count_def split: option.splits stored_item.splits)

lemma history_within_mount:
  "stored_count item \<le> n \<Longrightarrow> history_within n (mount draft item)"
  by (auto simp: history_within_def mount_def load_history_def initial_state_def
                 stored_count_def split: option.splits stored_item.splits)

lemma history_within_finishRun:
  assumes "MAX_HISTORY_ITEMS \<le> n" and "history_within n s"
  shows "history_within n (finishRun newId now nextResults s)"
  using assms
  by (auto simp: history_within_def finishRun_def Let_def split: option.splits)

lemma history_within_cong:
  "history s' = history s \<Longrightarrow> historyItem s' = historyItem s \<Longrightarrow>
   history_within n s \<Longrightarrow> history_within n s'"
  by (simp add: history_within_def)

lemma history_within_commitVerdict:
  assumes "MAX_HISTORY_ITEMS \<le> n" and "history_within n s"
    and "commitVerdict newId now v s = Inr s'"
  shows "history_within n s'"
proof -
  have *: "history_within n (s\<lparr>results := r, isDragging := d\<rparr>)" for r d
    using assms(2) by (simp add: history_within_def)
  have **: "history_within n (s\<lparr>results := r, isDragging := d, cursor := c\<rparr>)" for r d c
    using assms(2) by (simp add: history_within_def)
  from assms(3) show ?thesis
    using assms(2) history_within_finishRun [OF assms(1) *] **
    by (auto simp: commitVerdict_def Let_def split: if_splits sum.splits)
qed

lemma history_within_callback:
  assumes "MAX_HISTORY_ITEMS \<le> n" and "history_within n s"
    and "swipeTimeout_callback newId now s = Inr s'"
  shows "history_within n s'"
  using assms(3) assms(2) history_within_commitVerdict [OF assms(1,2)]
  by (auto simp: swipeTimeout_callback_def history_within_def split: option.splits sum.splits)

lemma history_within_apply_event:
  assumes "MAX_HISTORY_ITEMS \<le> n" and "history_within n s"
    and "apply_event JSON_parse e s = Inr s'"
  shows "history_within n s'"
proof (cases e)
  case (Reload d)
  with assms show ?thesis
    by (auto simp: history_within_def intro: history_within_mount [unfolded history_within_def, THEN conjunct1]
           history_within_mount [unfolded history_within_def, THEN conjunct2])
next
  case (TimerFires newId now)
  with assms show ?thesis by (auto intro: history_within_callback)
next
  case (Request r)
  with assms show ?thesis
    by (cases r) (auto simp: history_within_def recordVerdict_def undoLast_def Let_def)
next
  case SubmitPlan
  with assms show ?thesis
    by (auto simp: history_within_def submitPlan_def Let_def split: sum.splits js_error.splits)
next
  case (DeleteReport reportId)
  from assms(2) have "length (filter (\<lambda>item. report_id item \<noteq> reportId) (history s)) \<le> n"
    using le_trans [OF length_filter_le [of "\<lambda>item. report_id item \<noteq> reportId" "history s"]]
    by (simp add: history_within_def)
  with DeleteReport assms show ?thesis
    by (auto simp: history_within_def deleteReport_def Let_def)
qed (use assms in \<open>auto simp: history_within_def openNewPlan_def clearRunState_def
       updateComment_def clearHistory_def persist_history_def stored_count_def\<close>)

lemma history_within_after_event:
  "MAX_HISTORY_ITEMS \<le> n \<Longrightarrow> history_within n s \<Longrightarrow>
   history_within n (after_event JSON_parse s e)"
  using history_within_apply_event [of n s JSON_parse e]
  by (cases "apply_event JSON_parse e s") (simp_all add: after_event_def)

lemma history_within_foldl:
  "MAX_HISTORY_ITEMS \<le> n \<Longrightarrow> history_within n s \<Longrightarrow>
   history_within n (foldl (after_event JSON_parse) s events)"
  by (induction events arbitrary: s) (simp_all add: history_within_after_event)

lemma session_from_history:
  "length (history (session_from JSON_parse draft item events))
     \<le> max MAX_HISTORY_ITEMS (stored_count item)"
proof -
  have "history_within (max MAX_HISTORY_ITEMS (stored_count item))
          (session_from JSON_parse draft item events)"
    unfolding session_from_def
    by (rule history_within_foldl) (simp_all add: history_within_mount)
  then show ?thesis by (simp add: history_within_def)
qed

lemma load_history_installs:
  "historyItem s = Some (StoredReports parsed) \<Longrightarrow> history (load_history s) = parsed"
  by (simp add: load_history_def)

lemma mount_installs: "history (mount draft (Some (StoredReports parsed))) = parsed"
  by (simp add: mount_def load_history_def initial_state_def)

section \<open>Claims about the run engine and the history\<close>

text \<open>
  Claim C1 as stated fails.  On the last test \<open>commitVerdict\<close> calls \<open>finishRun\<close> and returns
  before \<open>setCursor\<close>: the cursor of a one-test plan is 0 before the commit and 0 after
  it, not 1, while the step has become the report step.
\<close>

theorem final_commit_keeps_cursor:
  "step (run_of text_one) = Run \<and>
   cursor (run_of text_one) < length (tests (run_of text_one)) \<and>
   isl (commitVerdict ''r1'' ''t1'' Pass (run_of text_one)) = False \<and>
   cursor (projr (commitVerdict ''r1'' ''t1'' Pass (run_of text_one))) = cursor (run_of text_one) \<and>
   cursor (run_of text_one) = 0 \<and>
   cursor (projr (commitVerdict ''r1'' ''t1'' Pass (run_of text_one)))
     \<noteq> cursor (run_of text_one) + 1 \<and>
   length (tests (projr (commitVerdict ''r1'' ''t1'' Pass (run_of text_one)))) = 1 \<and>
   step (projr (commitVerdict ''r1'' ''t1'' Pass (run_of text_one))) = Report"
  by code_simp

text \<open>
  Claim C1, amended.  In the run step, with a plan loaded and a test at the cursor (whose
  identifier is not a property name of \<open>Object.prototype\<close>, as every identifier made by
  the parser; see \<open>session_run_ready\<close>), \<open>commitVerdict v\<close> reads the draft comment of \<open>tests[cursor]\<close>, trims it,
  builds the result from that test, \<open>v\<close> and the trimmed comment, and stores it at
  \<open>results[cursor]\<close>; tests and drafts stay.  When another test remains the cursor
  advances by one and the run goes on.  When the test was the last, the cursor stays,
  the step becomes the report step, and the report built from the non-null entries of
  the new \<open>results\<close> in their order is put in front of the history, cut at the maximum.
\<close>

theorem commitVerdict_records:
  assumes "step s = Run" and "cursor s < length (tests s)"
    and "sourcePlan s = Some source"
    and "test_id (tests s ! cursor s) \<notin> set Object_prototype_keys"
  shows "\<exists>s'. commitVerdict newId now v s = Inr s' \<and>
           results s' = array_set (results s) (cursor s)
                          (Some (make_result (tests s ! cursor s) v (trim (current_draft s)))) \<and>
           results s' ! cursor s
             = Some (make_result (tests s ! cursor s) v (trim (current_draft s))) \<and>
           tests s' = tests s \<and> commentDrafts s' = commentDrafts s \<and>
           (cursor s + 1 < length (tests s) \<longrightarrow>
              cursor s' = cursor s + 1 \<and> step s' = Run \<and> history s' = history s) \<and>
           (cursor s + 1 = length (tests s) \<longrightarrow>
              cursor s' = cursor s \<and> step s' = Report \<and> activeReportId s' = Some newId \<and>
              history s' = take MAX_HISTORY_ITEMS
                (buildReport newId now
                   (if trim (suiteName s) = [] then ''Untitled Plan'' else trim (suiteName s))
                   source (List.map_filter (\<lambda>item. item) (results s')) # history s) \<and>
              map Some (report_results (hd (history s')))
                = filter (\<lambda>item. item \<noteq> None) (results s'))"
proof (cases "cursor s + 1 < length (tests s)")
  case True
  with commitVerdict_accepted [OF assms(1,2,4), of newId now v] assms(1) show ?thesis
    by (simp add: Let_def array_set_nth)
next
  case False
  with assms(2) have last: "cursor s + 1 = length (tests s)" by simp
  have "sourcePlan (s\<lparr>results := rs, isDragging := False\<rparr>) = Some source" for rs
    using assms(3) by simp
  note fin = finishRun_loaded [OF this]
  have "map Some (report_results (hd (take MAX_HISTORY_ITEMS
          (buildReport newId now name source (List.map_filter (\<lambda>item. item) rs) # h))))
        = filter (\<lambda>item. item \<noteq> None) rs" for name rs h
    by (simp add: MAX_HISTORY_ITEMS_def buildReport_def Let_def map_filter_non_null)
  with last commitVerdict_accepted [OF assms(1,2,4), of newId now v] show ?thesis
    by (simp add: Let_def array_set_nth fin)
qed

theorem commitVerdict_records_witness:
  "step (run_of text_two) = Run \<and>
   cursor (run_of text_two) < length (tests (run_of text_two)) \<and>
   cursor (run_of text_two) + 1 < length (tests (run_of text_two)) \<and>
   (\<exists>s'. commitVerdict ''r1'' ''t1'' Fail (run_of text_two) = Inr s' \<and>
         cursor s' = cursor (run_of text_two) + 1 \<and> step s' = Run \<and>
         history s' = history (run_of text_two)) \<and>
   step (run_of text_one) = Run \<and>
   cursor (run_of text_one) + 1 = length (tests (run_of text_one)) \<and>
   (\<exists>s'. commitVerdict ''r1'' ''t1'' Pass (run_of text_one) = Inr s' \<and>
         cursor s' = cursor (run_of text_one) \<and> step s' = Report \<and>
         activeReportId s' = Some ''r1'')"
proof -
  have two: "step (run_of text_two) = Run"
    "cursor (run_of text_two) < length (tests (run_of text_two))"
    "sourcePlan (run_of text_two)
       = Some [(''A'', [\<lparr>g_action = ''x'', g_result = ''y''\<rparr>,
                        \<lparr>g_action = ''z'', g_result = ''w''\<rparr>])]"
    "test_id (tests (run_of text_two) ! cursor (run_of text_two)) \<notin> set Object_prototype_keys"
    by code_simp+
  have more: "cursor (run_of text_two) + 1 < length (tests (run_of text_two))"
    by code_simp
  have one: "step (run_of text_one) = Run"
    "cursor (run_of text_one) < length (tests (run_of text_one))"
    "sourcePlan (run_of text_one) = Some [(''A'', [\<lparr>g_action = ''x'', g_result = ''y''\<rparr>])]"
    "test_id (tests (run_of text_one) ! cursor (run_of text_one)) \<notin> set Object_prototype_keys"
    by code_simp+
  have last: "cursor (run_of text_one) + 1 = length (tests (run_of text_one))"
    by code_simp
  from commitVerdict_records [OF two, of "''r1''" "''t1''" Fail]
       commitVerdict_records [OF one, of "''r1''" "''t1''" Pass]
       two(1,2) more one(1) last
  show ?thesis by blast
qed

text \<open>
  Claim C2 as stated fails.  Committing the verdict of the last test finishes the run;
  \<open>undoLast\<close> is then outside the run step and does nothing, so the result stays stored.
\<close>

theorem final_commit_is_not_undone:
  "step (run_of text_one) = Run \<and>
   exitVerdict (run_of text_one) = None \<and>
   results (run_of text_one) = [None] \<and>
   isl (commitVerdict ''r1'' ''t1'' Pass (run_of text_one)) = False \<and>
   undoLast (projr (commitVerdict ''r1'' ''t1'' Pass (run_of text_one)))
     = projr (commitVerdict ''r1'' ''t1'' Pass (run_of text_one)) \<and>
   results (undoLast (projr (commitVerdict ''r1'' ''t1'' Pass (run_of text_one))))
     = [Some \<lparr>test_id = ''A-0-1'', category = ''A'', action = ''x'', expected = ''y'',
              sequence = 1, verdict = Pass, comment = []\<rparr>]"
  by code_simp

text \<open>
  Claim C2, amended.  In the run step with the cursor past 0 and no commit in flight,
  \<open>undoLast\<close> empties \<open>results[cursor - 1]\<close> and moves the cursor back by one; drafts and
  tests stay.  In the run step with no commit in flight, when the test at the cursor is
  not the last one and its result slot is empty (as it is in every state of a session,
  see \<open>session_run_ready\<close>), committing a verdict and undoing it gives back the cursor and
  the results of before; so does the whole path of a request, \<open>recordVerdict\<close>, then the
  timer callback, then \<open>undoLast\<close>; and any number of such rounds leaves the run state
  (tests, cursor, results, drafts), the step and the history as they were.
\<close>

theorem undo_restores_commit:
  "(step s = Run \<and> 0 < cursor s \<and> exitVerdict s = None \<longrightarrow>
      results (undoLast s) = array_set (results s) (cursor s - 1) None \<and>
      results (undoLast s) ! (cursor s - 1) = None \<and>
      cursor (undoLast s) = cursor s - 1 \<and>
      commentDrafts (undoLast s) = commentDrafts s \<and> tests (undoLast s) = tests s) \<and>
   (step s = Run \<and> exitVerdict s = None \<and> cursor s + 1 < length (tests s) \<and>
    cursor s < length (results s) \<and> results s ! cursor s = None \<and>
    test_id (tests s ! cursor s) \<notin> set Object_prototype_keys \<longrightarrow>
      (\<exists>s1. commitVerdict newId now v s = Inr s1 \<and>
            cursor (undoLast s1) = cursor s \<and> results (undoLast s1) = results s \<and>
            commentDrafts (undoLast s1) = commentDrafts s \<and> tests (undoLast s1) = tests s) \<and>
      (\<exists>s1. swipeTimeout_callback newId now (recordVerdict offscreenDistance v s) = Inr s1 \<and>
            run_state (undoLast s1) = run_state s) \<and>
      (\<exists>s'. commit_undo_rounds newId now vs s = Inr s' \<and> run_state s' = run_state s \<and>
            step s' = Run \<and> history s' = history s))"
proof (intro conjI impI)
  assume "step s = Run \<and> 0 < cursor s \<and> exitVerdict s = None"
  then have "undoLast s =
           s\<lparr>results := array_set (results s) (cursor s - 1) None, cursor := cursor s - 1,
             dragOffset := 0, isDragging := False\<rparr>"
    by (simp add: undoLast_accepted)
  then show "results (undoLast s) = array_set (results s) (cursor s - 1) None"
    and "results (undoLast s) ! (cursor s - 1) = None"
    and "cursor (undoLast s) = cursor s - 1"
    and "commentDrafts (undoLast s) = commentDrafts s"
    and "tests (undoLast s) = tests s"
    by (simp_all add: array_set_nth)
next
  assume h: "step s = Run \<and> exitVerdict s = None \<and> cursor s + 1 < length (tests s) \<and>
    cursor s < length (results s) \<and> results s ! cursor s = None \<and>
    test_id (tests s ! cursor s) \<notin> set Object_prototype_keys"
  then obtain s1 where "commitVerdict newId now v s = Inr s1"
    and "undoLast s1 = s\<lparr>dragOffset := 0, isDragging := False\<rparr>"
    using commit_then_undo [of s newId now v] by blast
  then show "\<exists>s1. commitVerdict newId now v s = Inr s1 \<and>
            cursor (undoLast s1) = cursor s \<and> results (undoLast s1) = results s \<and>
            commentDrafts (undoLast s1) = commentDrafts s \<and> tests (undoLast s1) = tests s"
    by simp
  from h obtain s2 where
    "swipeTimeout_callback newId now (recordVerdict offscreenDistance v s) = Inr s2"
    and "undoLast s2 = s\<lparr>dragOffset := 0, isDragging := False, swipeTimeoutRef := None\<rparr>"
    using verdict_then_undo [of s newId now offscreenDistance v] by blast
  then show "\<exists>s1. swipeTimeout_callback newId now (recordVerdict offscreenDistance v s) = Inr s1 \<and>
            run_state (undoLast s1) = run_state s"
    by (simp add: run_state_def)
  from h have "commit_undo_rounds newId now vs s
           = Inr (if vs = [] then s else s\<lparr>dragOffset := 0, isDragging := False\<rparr>)"
    by (simp add: commit_undo_rounds_result)
  with h show "\<exists>s'. commit_undo_rounds newId now vs s = Inr s' \<and> run_state s' = run_state s \<and>
            step s' = Run \<and> history s' = history s"
    by (simp add: run_state_def)
qed

theorem undo_restores_commit_witness:
  "step (run_of text_two) = Run \<and> exitVerdict (run_of text_two) = None \<and>
   cursor (run_of text_two) + 1 < length (tests (run_of text_two)) \<and>
   cursor (run_of text_two) < length (results (run_of text_two)) \<and>
   results (run_of text_two) ! cursor (run_of text_two) = None \<and>
   (\<exists>s1. commitVerdict ''r1'' ''t1'' Pass (run_of text_two) = Inr s1 \<and>
         cursor (undoLast s1) = cursor (run_of text_two) \<and>
         results (undoLast s1) = results (run_of text_two)) \<and>
   (\<exists>s'. commit_undo_rounds ''r1'' ''t1'' [Pass, Fail, Pass] (run_of text_two) = Inr s' \<and>
         run_state s' = run_state (run_of text_two)) \<and>
   0 < cursor (projr (commitVerdict ''r1'' ''t1'' Pass (run_of text_two))) \<and>
   cursor (undoLast (projr (commitVerdict ''r1'' ''t1'' Pass (run_of text_two)))) = 0"
proof -
  let ?s = "run_of text_two"
  let ?t = "projr (commitVerdict ''r1'' ''t1'' Pass (run_of text_two))"
  have s: "step ?s = Run \<and> exitVerdict ?s = None \<and> cursor ?s + 1 < length (tests ?s) \<and>
    cursor ?s < length (results ?s) \<and> results ?s ! cursor ?s = None \<and>
    test_id (tests ?s ! cursor ?s) \<notin> set Object_prototype_keys"
    by code_simp
  have t: "step ?t = Run \<and> 0 < cursor ?t \<and> exitVerdict ?t = None"
    by code_simp
  have c: "cursor ?t - 1 = 0"
    by code_simp
  from undo_restores_commit [of ?s "''r1''" "''t1''" Pass 576 "[Pass, Fail, Pass]"]
       undo_restores_commit [of ?t "''r1''" "''t1''" Pass 576 "[]"] s t c
  show ?thesis by (simp del: fun_upd_apply) blast
qed

text \<open>
  Claim C7 as stated fails.  The load effect installs whatever array it finds stored,
  without cutting it: on a visit that finds 51 reports stored the history has 51
  reports, more than \<open>MAX_HISTORY_ITEMS = 50\<close>, and the page writes the 51 back and
  loads them again on the next visit.
\<close>

theorem stored_history_exceeds_maximum:
  "stored_count overfull_store = 51 \<and>
   length (history (mount [] overfull_store)) = 51 \<and>
   \<not> length (history (session_from JSON_parse_examples [] overfull_store []))
       \<le> MAX_HISTORY_ITEMS \<and>
   length (history (session_from JSON_parse_examples [] overfull_store
                      [PersistHistory, Reload []])) = 51"
  by (simp add: session_from_def after_event_def persist_history_def mount_def
                load_history_def initial_state_def overfull_store_def stored_count_def
                MAX_HISTORY_ITEMS_def)

text \<open>
  Claim C7, amended.  On a visit that finds at most \<open>MAX_HISTORY_ITEMS = 50\<close> reports
  stored (or nothing, or something that is not an array of reports), the history has at
  most 50 reports in every state, whatever the events, reloads included.  Whatever is
  stored, the history is never longer than the larger of 50 and the stored count, and
  the load effect installs the stored array as it is.  \<open>finishRun\<close> puts the new report
  in front and keeps the first 49 of the earlier ones in their order, so the reports
  dropped are the last, oldest ones, and the history it leaves has at most 50 reports
  however long it was.
\<close>

theorem history_bound_from_store:
  "(stored_count item \<le> MAX_HISTORY_ITEMS \<longrightarrow>
      length (history (session_from JSON_parse draft item events)) \<le> MAX_HISTORY_ITEMS) \<and>
   length (history (session_from JSON_parse draft item events))
     \<le> max MAX_HISTORY_ITEMS (stored_count item) \<and>
   history (mount draft (Some (StoredReports parsed))) = parsed \<and>
   length (history (session JSON_parse draft events)) \<le> MAX_HISTORY_ITEMS \<and>
   MAX_HISTORY_ITEMS = 50 \<and>
   (sourcePlan s = Some source \<longrightarrow>
      history (finishRun newId now nextResults s)
        = buildReport newId now
            (if trim (suiteName s) = [] then ''Untitled Plan'' else trim (suiteName s))
            source (List.map_filter (\<lambda>item. item) nextResults)
          # take (MAX_HISTORY_ITEMS - 1) (history s) \<and>
      length (history (finishRun newId now nextResults s)) \<le> MAX_HISTORY_ITEMS)"
proof (intro conjI impI)
  show general: "length (history (session_from JSON_parse draft item events))
                   \<le> max MAX_HISTORY_ITEMS (stored_count item)"
    by (rule session_from_history)
  show "length (history (session_from JSON_parse draft item events)) \<le> MAX_HISTORY_ITEMS"
    if "stored_count item \<le> MAX_HISTORY_ITEMS"
    using general that by (simp add: max_def split: if_splits)
  show "history (mount draft (Some (StoredReports parsed))) = parsed"
    by (rule mount_installs)
  show "length (history (session JSON_parse draft events)) \<le> MAX_HISTORY_ITEMS"
    using session_from_history [of JSON_parse draft None events]
    by (simp add: session_from_nothing stored_count_def)
  show "MAX_HISTORY_ITEMS = 50"
    by (simp add: MAX_HISTORY_ITEMS_def)
next
  assume "sourcePlan s = Some source"
  then have fin: "history (finishRun newId now nextResults s)
        = take MAX_HISTORY_ITEMS
            (buildReport newId now
               (if trim (suiteName s) = [] then ''Untitled Plan'' else trim (suiteName s))
               source (List.map_filter (\<lambda>item. item) nextResults) # history s)"
    by (simp add: finishRun_loaded)
  then show "history (finishRun newId now nextResults s)
        = buildReport newId now
            (if trim (suiteName s) = [] then ''Untitled Plan'' else trim (suiteName s))
            source (List.map_filter (\<lambda>item. item) nextResults)
          # take (MAX_HISTORY_ITEMS - 1) (history s)"
    by (simp add: MAX_HISTORY_ITEMS_def take_Cons')
  from fin show "length (history (finishRun newId now nextResults s)) \<le> MAX_HISTORY_ITEMS"
    by simp
qed

theorem history_bound_from_store_witness:
  "stored_count full_store = 50 \<and>
   length (history (session_from JSON_parse_examples [] full_store
                      (pass_single_test text_one))) = 50 \<and>
   map report_id (history (session_from JSON_parse_examples [] full_store
                             (pass_single_test text_one)))
     = ''r1'' # replicate 49 ''r0'' \<and>
   length (history (session JSON_parse_examples [] (pass_single_test text_one))) = 1 \<and>
   sourcePlan run_with_full_history = Some [(''A'', [\<lparr>g_action = ''x'', g_result = ''y''\<rparr>])] \<and>
   length (history run_with_full_history) = 50 \<and>
   length (history (finishRun ''r1'' ''t1'' [] run_with_full_history)) = 50 \<and>
   report_id (hd (history (finishRun ''r1'' ''t1'' [] run_with_full_history))) = ''r1'' \<and>
   tl (history (finishRun ''r1'' ''t1'' [] run_with_full_history)) = replicate 49 old_report"
proof -
  have count: "stored_count full_store = 50"
    by (simp add: stored_count_def full_store_def)
  have ids: "map report_id (history (session_from JSON_parse_examples [] full_store
                                       (pass_single_test text_one)))
               = ''r1'' # replicate 49 ''r0''"
    by code_simp
  have len: "length (history (session_from JSON_parse_examples [] full_store
                                 (pass_single_test text_one))) = 50"
    using arg_cong [OF ids, of length] by simp
  have one: "length (history (session JSON_parse_examples [] (pass_single_test text_one))) = 1"
    by code_simp
  have loaded: "sourcePlan run_with_full_history
                  = Some [(''A'', [\<lparr>g_action = ''x'', g_result = ''y''\<rparr>])]"
    by code_simp
  have full: "history run_with_full_history = replicate 50 old_report"
    by (simp add: run_with_full_history_def)
  have cut: "take 49 (replicate 50 old_report) = replicate 49 old_report"
    by simp
  from history_bound_from_store
         [of full_store JSON_parse_examples "[]" "pass_single_test text_one" "[]"
             run_with_full_history
             "[(''A'', [\<lparr>g_action = ''x'', g_result = ''y''\<rparr>])]" "''r1''" "''t1''" "[]"]
       count len one loaded full cut
  show ?thesis
    by (simp add: ids buildReport_def Let_def MAX_HISTORY_ITEMS_def)
qed
section \<open>Claims about rejected requests\<close>

text \<open>
  Claim C9.  A commit is in flight from the accepted \<open>recordVerdict\<close>, which sets
  \<open>exitVerdict\<close> and the timer, until the timer callback resets both.  In every state
  with \<open>exitVerdict\<close> set, a further \<open>recordVerdict\<close> and an \<open>undoLast\<close> return the state as
  it is, and so does any sequence of such requests: tests, cursor, results and comment
  drafts are those of before, and the pending timer is still the first one.  In a
  session the same holds in every state with a timer pending.
\<close>

theorem commit_in_flight_locks_state:
  "(exitVerdict s \<noteq> None \<longrightarrow>
      recordVerdict offscreenDistance v s = s \<and> undoLast s = s \<and>
      fold handle_request rs s = s) \<and>
   (swipeTimeoutRef (session JSON_parse draft events) \<noteq> None \<longrightarrow>
      exitVerdict (session JSON_parse draft events) \<noteq> None \<and>
      fold handle_request rs (session JSON_parse draft events)
        = session JSON_parse draft events)"
proof (intro conjI impI)
  assume "exitVerdict s \<noteq> None"
  then show "recordVerdict offscreenDistance v s = s" and "undoLast s = s"
    and "fold handle_request rs s = s"
    by (simp_all add: recordVerdict_rejected undoLast_rejected fold_requests_in_flight)
next
  assume "swipeTimeoutRef (session JSON_parse draft events) \<noteq> None"
  with session_timer [of JSON_parse draft events]
  show flight: "exitVerdict (session JSON_parse draft events) \<noteq> None"
    by simp
  then show "fold handle_request rs (session JSON_parse draft events)
               = session JSON_parse draft events"
    by (rule fold_requests_in_flight)
qed

theorem commit_in_flight_locks_state_witness:
  "exitVerdict (recordVerdict 576 Pass (run_of text_two)) \<noteq> None \<and>
   recordVerdict 576 Fail (recordVerdict 576 Pass (run_of text_two))
     = recordVerdict 576 Pass (run_of text_two) \<and>
   undoLast (recordVerdict 576 Pass (run_of text_two))
     = recordVerdict 576 Pass (run_of text_two) \<and>
   fold handle_request [UndoLast, RecordVerdict 576 Fail, UndoLast]
        (recordVerdict 576 Pass (run_of text_two))
     = recordVerdict 576 Pass (run_of text_two) \<and>
   swipeTimeoutRef (session JSON_parse_examples [] (verdict_requested text_two)) \<noteq> None \<and>
   fold handle_request [UndoLast, RecordVerdict 576 Fail]
        (session JSON_parse_examples [] (verdict_requested text_two))
     = session JSON_parse_examples [] (verdict_requested text_two)"
proof -
  have flight: "exitVerdict (recordVerdict 576 Pass (run_of text_two)) \<noteq> None"
    by code_simp
  have pending:
    "swipeTimeoutRef (session JSON_parse_examples [] (verdict_requested text_two)) \<noteq> None"
    by code_simp
  from commit_in_flight_locks_state
         [of "recordVerdict 576 Pass (run_of text_two)" 576 Fail
             "[UndoLast, RecordVerdict 576 Fail, UndoLast]"
             JSON_parse_examples "[]" "verdict_requested text_two"]
       commit_in_flight_locks_state
         [of "recordVerdict 576 Pass (run_of text_two)" 576 Fail
             "[UndoLast, RecordVerdict 576 Fail]"
             JSON_parse_examples "[]" "verdict_requested text_two"]
       flight pending
  show ?thesis by simp
qed

text \<open>
  Claim C10.  A call outside its precondition returns the state unchanged, and raises
  nothing: \<open>recordVerdict\<close> when the step is not the run step, a commit is in flight or
  there is no test at the cursor; \<open>undoLast\<close> when the step is not the run step, the
  cursor is 0 or a commit is in flight; \<open>commitVerdict\<close> when the step is not the run
  step or there is no test at the cursor.  \<open>undoLast\<close> does not look at the test at the
  cursor; in a session a state with no test at the cursor is outside the run step, so
  \<open>undoLast\<close> returns it unchanged as well.
\<close>

theorem invalid_calls_are_noops:
  "(step s \<noteq> Run \<or> exitVerdict s \<noteq> None \<or> \<not> cursor s < length (tests s)
      \<longrightarrow> recordVerdict offscreenDistance v s = s) \<and>
   (step s \<noteq> Run \<or> cursor s = 0 \<or> exitVerdict s \<noteq> None \<longrightarrow> undoLast s = s) \<and>
   (step s \<noteq> Run \<or> \<not> cursor s < length (tests s)
      \<longrightarrow> commitVerdict newId now v s = Inr s) \<and>
   (\<not> cursor (session JSON_parse draft events)
        < length (tests (session JSON_parse draft events))
      \<longrightarrow> undoLast (session JSON_parse draft events) = session JSON_parse draft events)"
proof (intro conjI impI)
  assume "step s \<noteq> Run \<or> exitVerdict s \<noteq> None \<or> \<not> cursor s < length (tests s)"
  then show "recordVerdict offscreenDistance v s = s"
    by (rule recordVerdict_rejected)
next
  assume "step s \<noteq> Run \<or> cursor s = 0 \<or> exitVerdict s \<noteq> None"
  then show "undoLast s = s"
    by (rule undoLast_rejected)
next
  assume "step s \<noteq> Run \<or> \<not> cursor s < length (tests s)"
  then show "commitVerdict newId now v s = Inr s"
    by (rule commitVerdict_rejected)
next
  assume none: "\<not> cursor (session JSON_parse draft events)
                   < length (tests (session JSON_parse draft events))"
  have "step (session JSON_parse draft events) \<noteq> Run"
  proof
    assume "step (session JSON_parse draft events) = Run"
    from session_run_ready(2) [OF this] none show False by simp
  qed
  then show "undoLast (session JSON_parse draft events) = session JSON_parse draft events"
    by (simp add: undoLast_rejected)
qed

theorem invalid_calls_are_noops_witness:
  "step (initial_state [] None) \<noteq> Run \<and>
   recordVerdict 576 Pass (initial_state [] None) = initial_state [] None \<and>
   undoLast (initial_state [] None) = initial_state [] None \<and>
   commitVerdict ''r1'' ''t1'' Pass (initial_state [] None) = Inr (initial_state [] None) \<and>
   cursor (run_of text_one) = 0 \<and>
   undoLast (run_of text_one) = run_of text_one \<and>
   \<not> cursor ((run_of text_one)\<lparr>cursor := 1\<rparr>)
       < length (tests ((run_of text_one)\<lparr>cursor := 1\<rparr>)) \<and>
   recordVerdict 576 Pass ((run_of text_one)\<lparr>cursor := 1\<rparr>)
     = (run_of text_one)\<lparr>cursor := 1\<rparr> \<and>
   commitVerdict ''r1'' ''t1'' Pass ((run_of text_one)\<lparr>cursor := 1\<rparr>)
     = Inr ((run_of text_one)\<lparr>cursor := 1\<rparr>) \<and>
   exitVerdict (recordVerdict 576 Pass (run_of text_two)) \<noteq> None \<and>
   recordVerdict 576 Fail (recordVerdict 576 Pass (run_of text_two))
     = recordVerdict 576 Pass (run_of text_two) \<and>
   undoLast (recordVerdict 576 Pass (run_of text_two))
     = recordVerdict 576 Pass (run_of text_two) \<and>
   \<not> cursor (session JSON_parse_examples [] [])
       < length (tests (session JSON_parse_examples [] [])) \<and>
   undoLast (session JSON_parse_examples [] []) = session JSON_parse_examples [] []"
proof -
  have idle: "step (initial_state [] None) \<noteq> Run"
    by (simp add: initial_state_def)
  have first: "cursor (run_of text_one) = 0"
    by code_simp
  have past: "\<not> cursor ((run_of text_one)\<lparr>cursor := 1\<rparr>)
                 < length (tests ((run_of text_one)\<lparr>cursor := 1\<rparr>))"
    by code_simp
  have flight: "exitVerdict (recordVerdict 576 Pass (run_of text_two)) \<noteq> None"
    by code_simp
  have fresh: "\<not> cursor (session JSON_parse_examples [] [])
                   < length (tests (session JSON_parse_examples [] []))"
    by code_simp
  from invalid_calls_are_noops [of "initial_state [] None" 576 Pass "''r1''" "''t1''"]
       invalid_calls_are_noops [of "run_of text_one" 576 Pass "''r1''" "''t1''"]
       invalid_calls_are_noops [of "(run_of text_one)\<lparr>cursor := 1\<rparr>" 576 Pass "''r1''" "''t1''"]
       invalid_calls_are_noops [of "recordVerdict 576 Pass (run_of text_two)" 576 Fail
                                   "''r1''" "''t1''" JSON_parse_examples "[]" "[]"]
       idle first past flight fresh
  show ?thesis by simp
qed

end
